theory Spec2Isabelle
  imports Complex_Main "HOL-Library.Sublist" "HOL-Library.AList" "HOL-Library.Log_Nat"
begin

section \<open>Railway data extractor: tile planner, query client, collectors\<close>

text \<open>
  The repository has two versions of the extractor. Constants without a suffix embed
  the functions of \<^verbatim>\<open>src/unnamed/part_000\<close> (tile size chosen per country, major
  stations only); constants with the suffix \<open>_ext\<close> embed the functions of the same
  name in \<^verbatim>\<open>src/extract.js\<close> (fixed tiling threshold, town gazetteer, lexical
  tie-break).
\<close>

subsection \<open>Numbers\<close>

text \<open>
  A JavaScript number is an IEEE 754 double. A finite double is represented by the
  real number it denotes, and every addition, subtraction, multiplication and division
  of the code is the exact operation followed by \<open>fl\<close>, the rounding to the nearest
  double, ties to the even significand. A decimal literal \<^verbatim>\<open>41.24\<close> is
  \<open>fl (4124 / 100)\<close>.

  \<open>roundEven z\<close> is the integer nearest to \<open>z\<close>, the even one of two; \<open>expo x\<close> is
  the binary exponent of \<open>x\<close>, with \<open>2 powi expo x \<le> \<bar>x\<bar> < 2 powi (expo x + 1)\<close>; \<open>fl x\<close>
  rounds \<open>x\<close> to a multiple of \<open>2 powi (expo x - 52)\<close>, a significand of 53 bits. The
  exponent is not bounded: overflow to \<^verbatim>\<open>Infinity\<close> (beyond \<open>2 ^ 1024\<close>) and the
  coarser spacing of subnormal numbers (below \<open>2 powi - 1022\<close>) are not represented,
  nor is \<^verbatim>\<open>NaN\<close>. Sums and differences of doubles are rounded as here also in the
  subnormal range, where they are exact.
\<close>

definition roundEven :: "real \<Rightarrow> int" where
  "roundEven z =
     (let f = \<lfloor>z\<rfloor>; r = z - of_int f
      in if r < 1 / 2 then f else if 1 / 2 < r then f + 1 else if even f then f else f + 1)"

definition expo :: "real \<Rightarrow> int" where
  "expo x = (if 1 \<le> \<bar>x\<bar> then bitlen \<lfloor>\<bar>x\<bar>\<rfloor> - 1 else - bitlen (\<lceil>1 / \<bar>x\<bar>\<rceil> - 1))"

definition fl :: "real \<Rightarrow> real" where
  "fl x =
     (if x = 0 then 0
      else let u = 2 powi (expo x - 52) in of_int (roundEven (x / u)) * u)"

subsection \<open>Tile planner\<close>

text \<open>A bounding box is the array \<^verbatim>\<open>[s, w, n, e]\<close>.\<close>

type_synonym bbox = "real \<times> real \<times> real \<times> real"

definition south :: "bbox \<Rightarrow> real" where
  "south b = fst b"

definition west :: "bbox \<Rightarrow> real" where
  "west b = fst (snd b)"

definition north :: "bbox \<Rightarrow> real" where
  "north b = fst (snd (snd b))"

definition east :: "bbox \<Rightarrow> real" where
  "east b = snd (snd (snd b))"

text \<open>
  The inner loop \<^verbatim>\<open>for (let lon = w; lon < e; lon += tileSize) tiles.push(...)\<close>.
  When the rounded sum \<open>fl (lon + tileSize)\<close> is not above \<open>lon\<close> (a tile size that is
  not positive, or one below the spacing of the doubles at \<open>lon\<close>) the loop never
  ends; not returning is \<open>None\<close>.
\<close>

partial_function (option) lonLoop ::
  "real \<Rightarrow> real \<Rightarrow> real \<Rightarrow> real \<Rightarrow> real \<Rightarrow> bbox list \<Rightarrow> bbox list option" where
  "lonLoop tileSize n e lat lon tiles =
     (if lon < e
      then lonLoop tileSize n e lat (fl (lon + tileSize))
             (tiles @ [(lat, lon, min (fl (lat + tileSize)) n, min (fl (lon + tileSize)) e)])
      else Some tiles)"

declare lonLoop.simps [code]

text \<open>The outer loop \<^verbatim>\<open>for (let lat = s; lat < n; lat += tileSize)\<close>.\<close>

partial_function (option) latLoop ::
  "real \<Rightarrow> real \<Rightarrow> real \<Rightarrow> real \<Rightarrow> real \<Rightarrow> bbox list \<Rightarrow> bbox list option" where
  "latLoop tileSize w n e lat tiles =
     (if lat < n
      then Option.bind (lonLoop tileSize n e lat w tiles)
             (\<lambda>tiles'. latLoop tileSize w n e (fl (lat + tileSize)) tiles')
      else Some tiles)"

declare latLoop.simps [code]

text \<open>\<^verbatim>\<open>getTiles(bbox, tileSize)\<close> of part_000.\<close>

definition getTiles :: "bbox \<Rightarrow> real \<Rightarrow> bbox list option" where
  "getTiles bbox tileSize =
     (case bbox of (s, w, n, e) \<Rightarrow>
        if fl (n - s) \<le> tileSize \<and> fl (e - w) \<le> tileSize then Some [bbox]
        else latLoop tileSize w n e s [])"

text \<open>\<^verbatim>\<open>getTiles(bbox)\<close> of extract.js, with its two constants.\<close>

definition TILE_THRESHOLD_DEG :: real where
  "TILE_THRESHOLD_DEG = 15"

definition TILE_SIZE_DEG :: real where
  "TILE_SIZE_DEG = 10"

definition getTiles_ext :: "bbox \<Rightarrow> bbox list option" where
  "getTiles_ext bbox =
     (case bbox of (s, w, n, e) \<Rightarrow>
        let latSpan = fl (n - s); lonSpan = fl (e - w) in
        if latSpan \<le> TILE_THRESHOLD_DEG \<and> lonSpan \<le> TILE_THRESHOLD_DEG then Some [bbox]
        else latLoop TILE_SIZE_DEG w n e s [])"

text \<open>A point lies in a box when both coordinates lie in the box's closed ranges.\<close>

definition in_box :: "real \<times> real \<Rightarrow> bbox \<Rightarrow> bool" where
  "in_box p b \<longleftrightarrow> south b \<le> fst p \<and> fst p \<le> north b \<and> west b \<le> snd p \<and> snd p \<le> east b"

text \<open>
  The coordinates of the box \<open>b\<close> and the tile size are in range \<open>k\<close> when every sum of a
  coordinate and the tile size lies below \<open>2 ^ (k + 1)\<close>, where neighbouring doubles are
  at most \<open>2 ^ k / 2 ^ 52\<close> apart, and the tile size is above half of that distance. The
  rounding of such a sum is then off by at most \<open>2 ^ k / 2 ^ 53\<close>. Up to \<open>k = 1022\<close> no
  such sum overflows. Latitudes and longitudes, with the tile sizes of the two files,
  are in range 7.
\<close>

definition inRange :: "nat \<Rightarrow> real \<Rightarrow> bbox \<Rightarrow> bool" where
  "inRange k tileSize b \<longleftrightarrow>
     2 ^ k / 2 ^ 53 < tileSize \<and>
     \<bar>south b\<bar> + tileSize < 2 ^ (k + 1) \<and> \<bar>west b\<bar> + tileSize < 2 ^ (k + 1) \<and>
     \<bar>north b\<bar> + tileSize < 2 ^ (k + 1) \<and> \<bar>east b\<bar> + tileSize < 2 ^ (k + 1)"

text \<open>A box whose coordinates are below \<open>2 ^ 52\<close> in magnitude, in range 52 with every
  tile size of the two files.\<close>

definition boundedBox :: "bbox \<Rightarrow> bool" where
  "boundedBox b \<longleftrightarrow>
     \<bar>south b\<bar> \<le> 2 ^ 52 \<and> \<bar>west b\<bar> \<le> 2 ^ 52 \<and> \<bar>north b\<bar> \<le> 2 ^ 52 \<and> \<bar>east b\<bar> \<le> 2 ^ 52"

subsection \<open>Data returned by the query service\<close>

text \<open>
  An element of the service's \<^verbatim>\<open>elements\<close> array. A field that the JSON may lack is
  an option; \<^verbatim>\<open>tags\<close> is an object from tag keys to strings.
\<close>

record element =
  el_type :: string
  el_id :: int
  el_lat :: "real option"
  el_lon :: "real option"
  el_center :: "(real \<times> real) option"
  el_tags :: "(string \<rightharpoonup> string) option"
  el_geometry :: "(real \<times> real) list option"

record overpass_data =
  elements :: "element list option"

text \<open>\<^verbatim>\<open>el.tags?.[k]\<close>: undefined when there are no tags or no such tag.\<close>

definition tag :: "element \<Rightarrow> string \<Rightarrow> string option" where
  "tag el k = (case el_tags el of None \<Rightarrow> None | Some t \<Rightarrow> t k)"

text \<open>Truthiness of a string that may be undefined, and \<^verbatim>\<open>a || b\<close> on such values.\<close>

definition truthy :: "string option \<Rightarrow> bool" where
  "truthy v = (case v of None \<Rightarrow> False | Some s \<Rightarrow> s \<noteq> [])"

definition js_or :: "string option \<Rightarrow> string option \<Rightarrow> string option" where
  "js_or a b = (if truthy a then a else b)"

text \<open>\<^verbatim>\<open>a || 'literal'\<close>, whose value is always a string.\<close>

definition or_default :: "string option \<Rightarrow> string \<Rightarrow> string" where
  "or_default a d = (if truthy a then the a else d)"

text \<open>\<^verbatim>\<open>Math.round(x * 100000) / 100000\<close>: the product is rounded to a double,
  \<^verbatim>\<open>Math.round\<close> gives the nearest integer, halves up, which is a double again, and
  the quotient is rounded to a double.\<close>

definition round5 :: "real \<Rightarrow> real" where
  "round5 x = fl (of_int \<lfloor>fl (x * 100000) + 1 / 2\<rfloor> / 100000)"

subsection \<open>Query client\<close>

text \<open>
  What one \<^verbatim>\<open>fetch\<close> and the reading of its body can do: resolve with a status and
  a body that parses as JSON or does not, or reject (by the timeout's abort or
  otherwise). The service is a function from endpoint and attempt number to that
  outcome, for the query in hand.
\<close>

datatype json_body = BadJson | Json "overpass_data option"

datatype fetch_error = AbortError | OtherError

datatype fetch_outcome = Response nat json_body | Throws fetch_error

type_synonym net = "string \<Rightarrow> nat \<Rightarrow> fetch_outcome"

text \<open>The effects of the client, in order: each request and each sleep.\<close>

datatype event = Fetch string nat | Sleep nat

text \<open>How the retry loop of one endpoint ends: the function returns, or the next
  endpoint is tried (by \<^verbatim>\<open>break\<close> or after the last attempt).\<close>

datatype loop_exit = Return "overpass_data option" | NextEndpoint

definition emit :: "event list \<Rightarrow> loop_exit \<times> event list \<Rightarrow> loop_exit \<times> event list" where
  "emit evs r = (fst r, evs @ snd r)"

definition OVERPASS_ENDPOINTS :: "string list" where
  "OVERPASS_ENDPOINTS =
     [''https://overpass-api.de/api/interpreter'',
      ''https://overpass.kumi.systems/api/interpreter'']"

definition MAX_RETRIES :: nat where
  "MAX_RETRIES = 3"

text \<open>\<^verbatim>\<open>resp.ok\<close>.\<close>

definition ok :: "nat \<Rightarrow> bool" where
  "ok status \<longleftrightarrow> 200 \<le> status \<and> status \<le> 299"

text \<open>The retry loop of part_000, from a given attempt on.\<close>

function attemptLoop :: "net \<Rightarrow> string \<Rightarrow> nat \<Rightarrow> loop_exit \<times> event list" where
  "attemptLoop net endpoint attempt =
     (if attempt < MAX_RETRIES then
        (case net endpoint attempt of
           Response status body \<Rightarrow>
             if status = 429 then
               emit [Fetch endpoint attempt, Sleep (15000 * (attempt + 1))]
                 (attemptLoop net endpoint (attempt + 1))
             else if status \<ge> 500 then (NextEndpoint, [Fetch endpoint attempt])
             else if \<not> ok status then
               emit [Fetch endpoint attempt, Sleep 5000] (attemptLoop net endpoint (attempt + 1))
             else (case body of
                     Json data \<Rightarrow> (Return data, [Fetch endpoint attempt])
                   | BadJson \<Rightarrow>
                       if attempt = MAX_RETRIES - 1 then (NextEndpoint, [Fetch endpoint attempt])
                       else emit [Fetch endpoint attempt, Sleep 5000]
                              (attemptLoop net endpoint (attempt + 1)))
         | Throws e \<Rightarrow>
             if attempt = MAX_RETRIES - 1 then (NextEndpoint, [Fetch endpoint attempt])
             else emit [Fetch endpoint attempt, Sleep 5000]
                    (attemptLoop net endpoint (attempt + 1)))
      else (NextEndpoint, []))"
  by pat_completeness auto
termination
  by (relation "measure (\<lambda>(net, endpoint, attempt). MAX_RETRIES - attempt)") auto

declare attemptLoop.simps [simp del]

fun endpointLoop :: "net \<Rightarrow> string list \<Rightarrow> overpass_data option \<times> event list" where
  "endpointLoop net [] = (None, [])"
| "endpointLoop net (endpoint # rest) =
     (case attemptLoop net endpoint 0 of
        (Return data, tr) \<Rightarrow> (data, tr)
      | (NextEndpoint, tr) \<Rightarrow>
          (case endpointLoop net rest of (data, tr') \<Rightarrow> (data, tr @ tr')))"

definition queryOverpass :: "net \<Rightarrow> overpass_data option \<times> event list" where
  "queryOverpass net = endpointLoop net OVERPASS_ENDPOINTS"

text \<open>The retry loop of extract.js: only 503 and 504 leave the endpoint, and a
  failed request is retried without a delay.\<close>

function attemptLoop_ext :: "net \<Rightarrow> string \<Rightarrow> nat \<Rightarrow> loop_exit \<times> event list" where
  "attemptLoop_ext net endpoint attempt =
     (if attempt < MAX_RETRIES then
        (case net endpoint attempt of
           Response status body \<Rightarrow>
             if status = 429 then
               emit [Fetch endpoint attempt, Sleep (10000 * (attempt + 1))]
                 (attemptLoop_ext net endpoint (attempt + 1))
             else if status = 504 \<or> status = 503 then (NextEndpoint, [Fetch endpoint attempt])
             else if \<not> ok status then
               emit [Fetch endpoint attempt] (attemptLoop_ext net endpoint (attempt + 1))
             else (case body of
                     Json data \<Rightarrow> (Return data, [Fetch endpoint attempt])
                   | BadJson \<Rightarrow>
                       emit [Fetch endpoint attempt] (attemptLoop_ext net endpoint (attempt + 1)))
         | Throws e \<Rightarrow>
             emit [Fetch endpoint attempt] (attemptLoop_ext net endpoint (attempt + 1)))
      else (NextEndpoint, []))"
  by pat_completeness auto
termination
  by (relation "measure (\<lambda>(net, endpoint, attempt). MAX_RETRIES - attempt)") auto

declare attemptLoop_ext.simps [simp del]

fun endpointLoop_ext :: "net \<Rightarrow> string list \<Rightarrow> overpass_data option \<times> event list" where
  "endpointLoop_ext net [] = (None, [])"
| "endpointLoop_ext net (endpoint # rest) =
     (case attemptLoop_ext net endpoint 0 of
        (Return data, tr) \<Rightarrow> (data, tr)
      | (NextEndpoint, tr) \<Rightarrow>
          (case endpointLoop_ext net rest of (data, tr') \<Rightarrow> (data, tr @ tr')))"

definition queryOverpass_ext :: "net \<Rightarrow> overpass_data option \<times> event list" where
  "queryOverpass_ext net = endpointLoop_ext net OVERPASS_ENDPOINTS"


subsection \<open>Country table\<close>

record country =
  c_name :: string
  c_bbox :: bbox
  c_code :: string

definition COUNTRIES_SMALL :: "(string \<times> country) list" where
  "COUNTRIES_SMALL =
     [(''bulgaria'', \<lparr>c_name = ''Bulgaria'', c_bbox = (fl (4124 / 100), fl (2236 / 100), fl (4422 / 100), fl (2861 / 100)), c_code = ''BG''\<rparr>),
      (''azerbaijan'', \<lparr>c_name = ''Azerbaijan'', c_bbox = (fl (3839 / 100), fl (4477 / 100), fl (4191 / 100), fl (5063 / 100)), c_code = ''AZ''\<rparr>),
      (''turkmenistan'', \<lparr>c_name = ''Turkmenistan'', c_bbox = (fl (3514 / 100), fl (5250 / 100), fl (4280 / 100), fl (6668 / 100)), c_code = ''TM''\<rparr>),
      (''afghanistan'', \<lparr>c_name = ''Afghanistan'', c_bbox = (fl (2938 / 100), fl (6050 / 100), fl (3849 / 100), fl (7489 / 100)), c_code = ''AF''\<rparr>)]"

definition COUNTRIES_MEDIUM :: "(string \<times> country) list" where
  "COUNTRIES_MEDIUM =
     [(''romania'', \<lparr>c_name = ''Romania'', c_bbox = (fl (4362 / 100), fl (2026 / 100), fl (4827 / 100), fl (2969 / 100)), c_code = ''RO''\<rparr>),
      (''uzbekistan'', \<lparr>c_name = ''Uzbekistan'', c_bbox = (fl (3718 / 100), fl (5599 / 100), fl (4559 / 100), fl (7313 / 100)), c_code = ''UZ''\<rparr>),
      (''turkey'', \<lparr>c_name = ''Turkey'', c_bbox = (fl (3581 / 100), fl (2566 / 100), fl (4211 / 100), fl (4482 / 100)), c_code = ''TR''\<rparr>)]"

definition COUNTRIES_LARGE :: "(string \<times> country) list" where
  "COUNTRIES_LARGE =
     [(''iran'', \<lparr>c_name = ''Iran'', c_bbox = (fl (2506 / 100), fl (4405 / 100), fl (3978 / 100), fl (6332 / 100)), c_code = ''IR''\<rparr>),
      (''pakistan'', \<lparr>c_name = ''Pakistan'', c_bbox = (fl (2369 / 100), fl (6087 / 100), fl (3708 / 100), fl (7784 / 100)), c_code = ''PK''\<rparr>),
      (''ukraine'', \<lparr>c_name = ''Ukraine'', c_bbox = (fl (4439 / 100), fl (2214 / 100), fl (5238 / 100), fl (4023 / 100)), c_code = ''UA''\<rparr>),
      (''kazakhstan'', \<lparr>c_name = ''Kazakhstan'', c_bbox = (fl (4057 / 100), fl (4649 / 100), fl (5544 / 100), fl (8731 / 100)), c_code = ''KZ''\<rparr>)]"

datatype country_size = Small | Medium | Large | XLarge

text \<open>
  \<^verbatim>\<open>COUNTRIES_SMALL[key]\<close> is truthy for a key of the table and also for a property
  that every object inherits from \<^verbatim>\<open>Object.prototype\<close>, each of which is a function
  or an object; the first test of \<^verbatim>\<open>getCountrySize\<close> succeeds for these.
\<close>

definition inheritedKeys :: "string list" where
  "inheritedKeys =
     [''constructor'', ''hasOwnProperty'', ''isPrototypeOf'', ''propertyIsEnumerable'',
      ''toLocaleString'', ''toString'', ''valueOf'', ''__defineGetter__'', ''__defineSetter__'',
      ''__lookupGetter__'', ''__lookupSetter__'', ''__proto__'']"

definition truthyProperty :: "(string \<times> country) list \<Rightarrow> string \<Rightarrow> bool" where
  "truthyProperty table key =
     (case map_of table key of Some c \<Rightarrow> True | None \<Rightarrow> key \<in> set inheritedKeys)"

definition getCountrySize :: "string \<Rightarrow> country_size" where
  "getCountrySize key =
     (if truthyProperty COUNTRIES_SMALL key then Small
      else if truthyProperty COUNTRIES_MEDIUM key then Medium
      else if truthyProperty COUNTRIES_LARGE key then Large
      else XLarge)"

fun TILE_SIZES :: "country_size \<Rightarrow> real" where
  "TILE_SIZES Small = 20"
| "TILE_SIZES Medium = 8"
| "TILE_SIZES Large = 6"
| "TILE_SIZES XLarge = 5"

subsection \<open>Railway collector\<close>

record segment =
  seg_id :: int
  seg_type :: string
  seg_geometry :: "(real \<times> real) list"

text \<open>The segment pushed for an element with the geometry \<open>geometry\<close>.\<close>

definition segmentOf :: "element \<Rightarrow> (real \<times> real) list \<Rightarrow> segment" where
  "segmentOf el geometry =
     \<lparr>seg_id = el_id el,
      seg_type = or_default (tag el ''railway'') ''rail'',
      seg_geometry = map (\<lambda>p. (round5 (fst p), round5 (snd p))) geometry\<rparr>"

text \<open>
  The loop over the elements of one tile, the same in both files. The state is
  \<^verbatim>\<open>allWays\<close> and \<^verbatim>\<open>seenIds\<close>.
\<close>

fun elementLoop :: "element list \<Rightarrow> segment list \<times> int set \<Rightarrow> segment list \<times> int set" where
  "elementLoop [] st = st"
| "elementLoop (el # els) (allWays, seenIds) =
     (if el_id el \<in> seenIds then elementLoop els (allWays, seenIds)
      else
        (case el_geometry el of
           None \<Rightarrow> elementLoop els (allWays, insert (el_id el) seenIds)
         | Some geometry \<Rightarrow>
             if length geometry < 2 then elementLoop els (allWays, insert (el_id el) seenIds)
             else elementLoop els
                    (allWays @ [segmentOf el geometry], insert (el_id el) seenIds)))"

text \<open>
  The loop over the tiles, the same in both files but for the query client, which is
  the parameter \<open>query\<close>: the answer to the query of tile \<open>i\<close>.
\<close>

function tileLoop ::
  "(nat \<Rightarrow> bbox \<Rightarrow> overpass_data option) \<Rightarrow> bbox list \<Rightarrow> nat \<Rightarrow>
     segment list \<times> int set \<Rightarrow> segment list \<times> int set" where
  "tileLoop query tiles i st =
     (if i < length tiles then
        (case query i (tiles ! i) of
           None \<Rightarrow> tileLoop query tiles (i + 1) st
         | Some data \<Rightarrow>
             (case elements data of
                None \<Rightarrow> tileLoop query tiles (i + 1) st
              | Some els \<Rightarrow> tileLoop query tiles (i + 1) (elementLoop els st)))
      else st)"
  by pat_completeness auto
termination
  by (relation "measure (\<lambda>(query, tiles, i, st). length tiles - i)") auto

declare tileLoop.simps [simp del]

text \<open>The service as the collectors see it: for the query of tile \<open>i\<close> with box \<open>t\<close>,
  \<open>world i t\<close> is what the endpoints answer.\<close>

definition extractRailways :: "(nat \<Rightarrow> bbox \<Rightarrow> net) \<Rightarrow> string \<Rightarrow> country \<Rightarrow> segment list option" where
  "extractRailways world key country =
     (let size = getCountrySize key in
      case getTiles (c_bbox country) (TILE_SIZES size) of
        None \<Rightarrow> None
      | Some tiles \<Rightarrow>
          Some (fst (tileLoop (\<lambda>i t. fst (queryOverpass (world i t))) tiles 0 ([], {}))))"

definition extractRailways_ext :: "(nat \<Rightarrow> bbox \<Rightarrow> net) \<Rightarrow> string \<Rightarrow> country \<Rightarrow> segment list option" where
  "extractRailways_ext world countryKey country =
     (case getTiles_ext (c_bbox country) of
        None \<Rightarrow> None
      | Some tiles \<Rightarrow>
          Some (fst (tileLoop (\<lambda>i t. fst (queryOverpass_ext (world i t))) tiles 0 ([], {}))))"

text \<open>The elements a tile's answer contributes (none for \<^verbatim>\<open>null\<close> or an answer without
  \<^verbatim>\<open>elements\<close>), all elements of a run in the order they are processed, and the
  elements whose geometry passes the check of the loop.\<close>

definition tileElements :: "overpass_data option \<Rightarrow> element list" where
  "tileElements data =
     (case data of None \<Rightarrow> [] | Some d \<Rightarrow> (case elements d of None \<Rightarrow> [] | Some els \<Rightarrow> els))"

definition fetched :: "(nat \<Rightarrow> bbox \<Rightarrow> overpass_data option) \<Rightarrow> bbox list \<Rightarrow> element list" where
  "fetched query tiles = concat (map (\<lambda>i. tileElements (query i (tiles ! i))) [0..<length tiles])"

definition validGeometry :: "element \<Rightarrow> bool" where
  "validGeometry el = (case el_geometry el of None \<Rightarrow> False | Some g \<Rightarrow> 2 \<le> length g)"


subsection \<open>Station collector\<close>

text \<open>\<^verbatim>\<open>el.type === 'way' ? el.center?.lat : el.lat\<close>, and the same for the longitude.\<close>

definition resolvedLat :: "element \<Rightarrow> real option" where
  "resolvedLat el = (if el_type el = ''way'' then map_option fst (el_center el) else el_lat el)"

definition resolvedLon :: "element \<Rightarrow> real option" where
  "resolvedLon el = (if el_type el = ''way'' then map_option snd (el_center el) else el_lon el)"

text \<open>\<^verbatim>\<open>!lat\<close> on a number that may be undefined: true when missing or zero.\<close>

definition falsyNum :: "real option \<Rightarrow> bool" where
  "falsyNum v = (case v of None \<Rightarrow> True | Some x \<Rightarrow> x = 0)"

text \<open>
  \<^verbatim>\<open>x.toFixed(4)\<close>: a minus sign when \<open>x < 0\<close>, then the magnitude rounded to four
  decimals, halves up. The string is represented by its sign and the rounded
  magnitude in units of \<open>1/10000\<close>, which determine it.
\<close>

definition toFixed4 :: "real \<Rightarrow> bool \<times> int" where
  "toFixed4 x = (x < 0, \<lfloor>\<bar>x\<bar> * 10000 + 1 / 2\<rfloor>)"

type_synonym coord_key = "(bool \<times> int) \<times> (bool \<times> int)"

definition mapKey :: "real \<Rightarrow> real \<Rightarrow> coord_key" where
  "mapKey lat lon = (toFixed4 lat, toFixed4 lon)"

text \<open>
  A string is a list of UTF-16 code units; the type \<^typ>\<open>char\<close> holds the units below
  256, so the strings of the model are those of ISO 8859-1. \<^verbatim>\<open>name.trim()\<close> removes
  white space and line terminators at both ends; below 256 these are the space, the
  tab, the line feed, the vertical tab, the form feed, the carriage return and the
  no-break space.
\<close>

definition whiteSpace :: "char \<Rightarrow> bool" where
  "whiteSpace c \<longleftrightarrow>
     c \<in> set [CHR '' '', CHR 0x09, CHR 0x0A, CHR 0x0B, CHR 0x0C, CHR 0x0D, CHR 0xA0]"

definition trim :: "string \<Rightarrow> string" where
  "trim s = rev (dropWhile whiteSpace (rev (dropWhile whiteSpace s)))"

text \<open>\<^verbatim>\<open>stationMap.has(key)\<close>; \<^verbatim>\<open>stationMap.set\<close> is \<^const>\<open>AList.update\<close>, which
  replaces the value of a present key in place and appends an absent key.\<close>

definition has :: "('k \<times> 'v) list \<Rightarrow> 'k \<Rightarrow> bool" where
  "has m k \<longleftrightarrow> map_of m k \<noteq> None"

text \<open>\<^verbatim>\<open>xs.sort((a, b) => cmp(a, b))\<close> as a stable insertion sort; \<open>le a b\<close> stands for
  \<^verbatim>\<open>cmp(a, b) <= 0\<close>.\<close>

fun insertBy :: "('a \<Rightarrow> 'a \<Rightarrow> bool) \<Rightarrow> 'a \<Rightarrow> 'a list \<Rightarrow> 'a list" where
  "insertBy le x [] = [x]"
| "insertBy le x (y # ys) = (if le x y then x # y # ys else y # insertBy le x ys)"

definition sortBy :: "('a \<Rightarrow> 'a \<Rightarrow> bool) \<Rightarrow> 'a list \<Rightarrow> 'a list" where
  "sortBy le xs = foldr (insertBy le) xs []"

subsubsection \<open>Major stations only (part_000)\<close>

record station =
  st_id :: int
  st_lat :: real
  st_lon :: real
  st_name :: string
  st_nameLocal :: "string option"
  st_type :: string

text \<open>\<^verbatim>\<open>el.tags?.['name:en'] || el.tags?.name || el.tags?.ref\<close>.\<close>

definition resolvedName :: "element \<Rightarrow> string option" where
  "resolvedName el = js_or (js_or (tag el ''name:en'') (tag el ''name'')) (tag el ''ref'')"

text \<open>The record stored for an element, given its coordinates and trimmed name.\<close>

definition stationOf :: "element \<Rightarrow> real \<Rightarrow> real \<Rightarrow> string \<Rightarrow> station" where
  "stationOf el lat lon name =
     \<lparr>st_id = el_id el,
      st_lat = round5 lat,
      st_lon = round5 lon,
      st_name = name,
      st_nameLocal =
        (if truthy (tag el ''name'') \<and> the (tag el ''name'') \<noteq> name
         then tag el ''name'' else None),
      st_type = or_default (tag el ''railway'') ''station''\<rparr>"

text \<open>The body of the loop over the elements.\<close>

definition stationStep :: "element \<Rightarrow> (coord_key \<times> station) list \<Rightarrow> (coord_key \<times> station) list" where
  "stationStep el stationMap =
     (let lat = resolvedLat el; lon = resolvedLon el in
      if falsyNum lat \<or> falsyNum lon then stationMap
      else
        let name = resolvedName el in
        if \<not> truthy name then stationMap
        else
          let name = trim (the name);
              mapKey = mapKey (the lat) (the lon)
          in if \<not> has stationMap mapKey then
               AList.update mapKey (stationOf el (the lat) (the lon) name) stationMap
             else stationMap)"

fun stationLoop :: "element list \<Rightarrow> (coord_key \<times> station) list \<Rightarrow> (coord_key \<times> station) list" where
  "stationLoop [] stationMap = stationMap"
| "stationLoop (el # els) stationMap = stationLoop els (stationStep el stationMap)"

text \<open>\<open>localeCompare a b\<close> stands for \<^verbatim>\<open>a.localeCompare(b) <= 0\<close>, which depends on the
  locale of the run; \<open>world\<close> answers the station query of the country's box.\<close>

definition extractStations ::
  "(string \<Rightarrow> string \<Rightarrow> bool) \<Rightarrow> (bbox \<Rightarrow> net) \<Rightarrow> string \<Rightarrow> country \<Rightarrow> station list" where
  "extractStations localeCompare world key country =
     (case fst (queryOverpass (world (c_bbox country))) of
        None \<Rightarrow> []
      | Some data \<Rightarrow>
          (case elements data of
             None \<Rightarrow> []
           | Some els \<Rightarrow>
               sortBy (\<lambda>a b. localeCompare (st_name a) (st_name b))
                 (map snd (stationLoop els []))))"

subsubsection \<open>Stations with the town gazetteer (extract.js)\<close>

record station_ext =
  sx_id :: int
  sx_lat :: real
  sx_lon :: real
  sx_name :: string
  sx_nameEn :: "string option"
  sx_type :: string

record town =
  t_lat :: "real option"
  t_lon :: "real option"
  t_name :: "string option"

text \<open>\<^verbatim>\<open>Math.atan2(y, x)\<close> and \<^verbatim>\<open>haversine\<close>. The results of \<^verbatim>\<open>Math.sin\<close>,
  \<^verbatim>\<open>Math.cos\<close>, \<^verbatim>\<open>Math.sqrt\<close> and \<^verbatim>\<open>Math.atan2\<close> depend on the engine; the distance
  is left as the exact real number, and no proof below unfolds it.\<close>

definition atan2 :: "real \<Rightarrow> real \<Rightarrow> real" where
  "atan2 y x =
     (if 0 < x then arctan (y / x)
      else if x < 0 then (if 0 \<le> y then arctan (y / x) + pi else arctan (y / x) - pi)
      else if 0 < y then pi / 2
      else if y < 0 then - pi / 2
      else 0)"

definition haversine :: "real \<Rightarrow> real \<Rightarrow> real \<Rightarrow> real \<Rightarrow> real" where
  "haversine lat1 lon1 lat2 lon2 =
     (let R = 6371;
          dLat = (lat2 - lat1) * pi / 180;
          dLon = (lon2 - lon1) * pi / 180;
          a = (sin (dLat / 2))\<^sup>2 + cos (lat1 * pi / 180) * cos (lat2 * pi / 180) * (sin (dLon / 2))\<^sup>2
      in R * 2 * atan2 (sqrt a) (sqrt (1 - a)))"

text \<open>The distance to a town; a town without coordinates gives \<^verbatim>\<open>NaN\<close>, here \<open>None\<close>,
  and every comparison with it is false.\<close>

definition townDist :: "real \<Rightarrow> real \<Rightarrow> town \<Rightarrow> real option" where
  "townDist lat lon t =
     (case (t_lat t, t_lon t) of
        (Some lat2, Some lon2) \<Rightarrow> Some (haversine lat lon lat2 lon2)
      | _ \<Rightarrow> None)"

text \<open>\<^verbatim>\<open>towns.some(t => haversine(lat, lon, t.lat, t.lon) <= 10)\<close>.\<close>

definition nearTown :: "real \<Rightarrow> real \<Rightarrow> town list \<Rightarrow> bool" where
  "nearTown lat lon towns =
     list_ex (\<lambda>t. case townDist lat lon t of None \<Rightarrow> False | Some d \<Rightarrow> d \<le> 10) towns"

text \<open>The search for the closest town; \<open>minDist = None\<close> is \<^verbatim>\<open>Infinity\<close>.\<close>

fun closestTownLoop ::
  "real \<Rightarrow> real \<Rightarrow> town list \<Rightarrow> town option \<times> real option \<Rightarrow> town option \<times> real option" where
  "closestTownLoop lat lon [] st = st"
| "closestTownLoop lat lon (town # towns) (closestTown, minDist) =
     (case townDist lat lon town of
        None \<Rightarrow> closestTownLoop lat lon towns (closestTown, minDist)
      | Some d \<Rightarrow>
          if (case minDist of None \<Rightarrow> True | Some m \<Rightarrow> d < m) \<and> d < 5
          then closestTownLoop lat lon towns (Some town, Some d)
          else closestTownLoop lat lon towns (closestTown, minDist))"

text \<open>\<^verbatim>\<open>name.toLowerCase()\<close>: the capital letters below 256 are \<^verbatim>\<open>A\<close> to \<^verbatim>\<open>Z\<close> (65 to
  90) and the accented capitals 192 to 222 without the multiplication sign 215; each
  has its small letter 32 units above. Then the match against
  \<^verbatim>\<open>/station|vokzal|gar|istasyon/\<close>, which holds when one of the words occurs.\<close>

definition lowerCase :: "char \<Rightarrow> char" where
  "lowerCase c =
     (let k = of_char c :: nat
      in if (65 \<le> k \<and> k \<le> 90) \<or> (192 \<le> k \<and> k \<le> 222 \<and> k \<noteq> 215) then char_of (k + 32) else c)"

definition toLowerCase :: "string \<Rightarrow> string" where
  "toLowerCase s = map lowerCase s"

definition matchesStation :: "string \<Rightarrow> bool" where
  "matchesStation s \<longleftrightarrow>
     list_ex (\<lambda>w. sublist w s) [''station'', ''vokzal'', ''gar'', ''istasyon'']"

text \<open>\<^verbatim>\<open>el.tags?.name || el.tags?.['name:en'] || el.tags?.ref\<close>, then the town's name
  when there is none; \<open>None\<close> is the \<^verbatim>\<open>continue\<close>.\<close>

definition resolvedName_ext :: "town list \<Rightarrow> real \<Rightarrow> real \<Rightarrow> element \<Rightarrow> string option" where
  "resolvedName_ext towns lat lon el =
     (let name = js_or (js_or (tag el ''name'') (tag el ''name:en'')) (tag el ''ref'') in
      if \<not> truthy name then
        (case fst (closestTownLoop lat lon towns (None, None)) of
           None \<Rightarrow> None
         | Some closestTown \<Rightarrow>
             if truthy (t_name closestTown) then Some (the (t_name closestTown) @ '' Station'')
             else None)
      else name)"

definition stationOf_ext :: "element \<Rightarrow> real \<Rightarrow> real \<Rightarrow> string \<Rightarrow> station_ext" where
  "stationOf_ext el lat lon name =
     \<lparr>sx_id = el_id el,
      sx_lat = round5 lat,
      sx_lon = round5 lon,
      sx_name = name,
      sx_nameEn = (if truthy (tag el ''name:en'') then tag el ''name:en'' else None),
      sx_type = or_default (tag el ''railway'') ''station''\<rparr>"

definition stationStep_ext ::
  "town list \<Rightarrow> element \<Rightarrow> (coord_key \<times> station_ext) list \<Rightarrow> (coord_key \<times> station_ext) list" where
  "stationStep_ext towns el stationMap =
     (let lat = resolvedLat el; lon = resolvedLon el in
      if falsyNum lat \<or> falsyNum lon then stationMap
      else if tag el ''building'' = Some ''train_station'' \<and> length towns > 0
              \<and> \<not> nearTown (the lat) (the lon) towns then stationMap
      else
        (case resolvedName_ext towns (the lat) (the lon) el of
           None \<Rightarrow> stationMap
         | Some name \<Rightarrow>
             let key = mapKey (the lat) (the lon) in
             if \<not> has stationMap key \<or> matchesStation (toLowerCase name) then
               AList.update key (stationOf_ext el (the lat) (the lon) name) stationMap
             else stationMap))"

fun stationLoop_ext ::
  "town list \<Rightarrow> element list \<Rightarrow> (coord_key \<times> station_ext) list \<Rightarrow> (coord_key \<times> station_ext) list" where
  "stationLoop_ext towns [] stationMap = stationMap"
| "stationLoop_ext towns (el # els) stationMap =
     stationLoop_ext towns els (stationStep_ext towns el stationMap)"

text \<open>The towns of the first query:
  \<^verbatim>\<open>townData?.elements?.map(t => ({lat: t.lat, lon: t.lon, name: ...})) || []\<close>.\<close>

definition townsOf :: "overpass_data option \<Rightarrow> town list" where
  "townsOf townData =
     (case townData of
        None \<Rightarrow> []
      | Some data \<Rightarrow>
          (case elements data of
             None \<Rightarrow> []
           | Some els \<Rightarrow>
               map (\<lambda>t. \<lparr>t_lat = el_lat t, t_lon = el_lon t,
                          t_name = js_or (tag t ''name'') (tag t ''name:en'')\<rparr>) els))"

text \<open>\<open>townWorld\<close> answers the town query and \<open>world\<close> the station query.\<close>

definition extractStations_ext ::
  "(string \<Rightarrow> string \<Rightarrow> bool) \<Rightarrow> (bbox \<Rightarrow> net) \<Rightarrow> (bbox \<Rightarrow> net) \<Rightarrow> string \<Rightarrow> country \<Rightarrow>
     station_ext list" where
  "extractStations_ext localeCompare townWorld world countryKey country =
     (let towns = townsOf (fst (queryOverpass_ext (townWorld (c_bbox country)))) in
      case fst (queryOverpass_ext (world (c_bbox country))) of
        None \<Rightarrow> []
      | Some data \<Rightarrow>
          (case elements data of
             None \<Rightarrow> []
           | Some els \<Rightarrow>
               sortBy (\<lambda>a b. localeCompare (sx_name a) (sx_name b))
                 (map snd (stationLoop_ext towns els []))))"

subsubsection \<open>What an element contributes\<close>

text \<open>
  The key and the record an element would be stored under, or nothing when the loop
  body reaches a \<^verbatim>\<open>continue\<close>; read off the loop bodies above, and shown below to
  describe them.
\<close>

definition hasCoords :: "element \<Rightarrow> bool" where
  "hasCoords el \<longleftrightarrow> \<not> falsyNum (resolvedLat el) \<and> \<not> falsyNum (resolvedLon el)"

definition candidate :: "element \<Rightarrow> (coord_key \<times> station) option" where
  "candidate el =
     (if \<not> hasCoords el then None
      else if \<not> truthy (resolvedName el) then None
      else Some (mapKey (the (resolvedLat el)) (the (resolvedLon el)),
                 stationOf el (the (resolvedLat el)) (the (resolvedLon el))
                   (trim (the (resolvedName el)))))"

definition candidate_ext :: "town list \<Rightarrow> element \<Rightarrow> (coord_key \<times> station_ext) option" where
  "candidate_ext towns el =
     (if \<not> hasCoords el then None
      else if tag el ''building'' = Some ''train_station'' \<and> length towns > 0
              \<and> \<not> nearTown (the (resolvedLat el)) (the (resolvedLon el)) towns then None
      else
        (case resolvedName_ext towns (the (resolvedLat el)) (the (resolvedLon el)) el of
           None \<Rightarrow> None
         | Some name \<Rightarrow>
             Some (mapKey (the (resolvedLat el)) (the (resolvedLon el)),
                   stationOf_ext el (the (resolvedLat el)) (the (resolvedLon el)) name)))"

text \<open>The candidates of a list of elements, in order, and those of one bucket.\<close>

definition candidates :: "element list \<Rightarrow> (coord_key \<times> station) list" where
  "candidates els = List.map_filter candidate els"

definition candidates_ext :: "town list \<Rightarrow> element list \<Rightarrow> (coord_key \<times> station_ext) list" where
  "candidates_ext towns els = List.map_filter (candidate_ext towns) els"

definition bucket :: "'k \<Rightarrow> ('k \<times> 'v) list \<Rightarrow> 'v list" where
  "bucket k cs = map snd (filter (\<lambda>c. fst c = k) cs)"

text \<open>Which station of a bucket is kept: in part_000 the first; in extract.js the last
  one whose lower-cased name matches the pattern, and the first when none does.\<close>

definition winner :: "station list \<Rightarrow> station option" where
  "winner cs = (case cs of [] \<Rightarrow> None | c # _ \<Rightarrow> Some c)"

definition winner_ext :: "station_ext list \<Rightarrow> station_ext option" where
  "winner_ext cs =
     (case filter (\<lambda>c. matchesStation (toLowerCase (sx_name c))) cs of
        [] \<Rightarrow> (case cs of [] \<Rightarrow> None | c # _ \<Rightarrow> Some c)
      | ms \<Rightarrow> Some (last ms))"

subsection \<open>Concrete inputs\<close>

text \<open>A way with two geometry points, a way with one, and services that answer with
  both, with a server error throughout, or with a server error on the first attempt
  of each endpoint only.\<close>

definition sampleWay :: element where
  "sampleWay = \<lparr>el_type = ''way'', el_id = 7, el_lat = None, el_lon = None, el_center = None,
     el_tags = Some [''railway'' \<mapsto> ''narrow_gauge''],
     el_geometry = Some [(fl (1123456789 / 1000000000), 2), (3, fl (4000004 / 1000000))]\<rparr>"

definition shortWay :: element where
  "shortWay = \<lparr>el_type = ''way'', el_id = 8, el_lat = None, el_lon = None, el_center = None,
     el_tags = None, el_geometry = Some [(1, 2)]\<rparr>"

definition sampleNet :: net where
  "sampleNet endpoint attempt = Response 200 (Json (Some \<lparr>elements = Some [shortWay, sampleWay]\<rparr>))"

definition deadNet :: net where
  "deadNet endpoint attempt = Response 500 BadJson"

definition sampleWorld :: "nat \<Rightarrow> bbox \<Rightarrow> net" where
  "sampleWorld i t = (if i = 0 then deadNet else sampleNet)"

definition kazakhstan :: country where
  "kazakhstan = \<lparr>c_name = ''Kazakhstan'', c_bbox = (fl (4057 / 100), fl (4649 / 100), fl (5544 / 100), fl (8731 / 100)), c_code = ''KZ''\<rparr>"

definition turkey :: country where
  "turkey = \<lparr>c_name = ''Turkey'', c_bbox = (fl (3581 / 100), fl (2566 / 100), fl (4211 / 100), fl (4482 / 100)), c_code = ''TR''\<rparr>"

definition net500 :: net where
  "net500 endpoint attempt =
     (if attempt = 0 then Response 500 BadJson
      else Response 200 (Json (Some \<lparr>elements = Some []\<rparr>)))"

definition net503 :: net where
  "net503 endpoint attempt =
     (if attempt = 0 then Response 503 BadJson
      else Response 200 (Json (Some \<lparr>elements = Some []\<rparr>)))"

text \<open>Station nodes at one place, 39.9375 north and 32.8125 east (both doubles): two
  names that match the pattern, one that does not, a name of one space; a node on
  the equator, and a way without a centre.\<close>

definition node :: "int \<Rightarrow> real \<Rightarrow> real \<Rightarrow> string \<Rightarrow> element" where
  "node i lat lon nm =
     \<lparr>el_type = ''node'', el_id = i, el_lat = Some lat, el_lon = Some lon, el_center = None,
      el_tags = Some [''name'' \<mapsto> nm, ''railway'' \<mapsto> ''station''], el_geometry = None\<rparr>"

definition ankaraGar :: element where
  "ankaraGar = node 1 (639 / 16) (525 / 16) ''Ankara Gar''"

definition centralStation :: element where
  "centralStation = node 2 (639 / 16) (525 / 16) ''Central Station''"

definition ankara :: element where
  "ankara = node 3 (639 / 16) (525 / 16) ''Ankara''"

definition blankName :: element where
  "blankName = node 4 (639 / 16) (525 / 16) '' ''"

definition equatorNode :: element where
  "equatorNode = node 5 0 (525 / 16) ''Equator Station''"

definition bareWay :: element where
  "bareWay =
     \<lparr>el_type = ''way'', el_id = 6, el_lat = None, el_lon = None, el_center = None,
      el_tags = Some [''name'' \<mapsto> ''Depot Station''], el_geometry = None\<rparr>"

text \<open>A service that answers every query at once with the given elements.\<close>

definition answering :: "element list \<Rightarrow> bbox \<Rightarrow> net" where
  "answering els b endpoint attempt = Response 200 (Json (Some \<lparr>elements = Some els\<rparr>))"

text \<open>A comparison of names for the examples: by length, then equal.\<close>

definition byLength :: "string \<Rightarrow> string \<Rightarrow> bool" where
  "byLength a b \<longleftrightarrow> length a \<le> length b"


section \<open>Properties\<close>

subsection \<open>Rounding to a double\<close>

text \<open>The rounding is off by at most half a unit of the last place, commutes with the
  sign and is monotone.\<close>

lemma roundEven_err: "\<bar>of_int (roundEven z) - z\<bar> \<le> 1 / 2"
proof -
  have "of_int \<lfloor>z\<rfloor> \<le> z" "z < of_int \<lfloor>z\<rfloor> + 1" by linarith+
  then show ?thesis
    by (auto simp: roundEven_def Let_def)
qed

lemma roundEven_of_int [simp]: "roundEven (of_int m) = m"
  by (simp add: roundEven_def)

lemma roundEven_cases: "roundEven z = \<lfloor>z\<rfloor> \<or> roundEven z = \<lfloor>z\<rfloor> + 1"
  by (simp add: roundEven_def Let_def)

lemma roundEven_bounds: "\<lfloor>z\<rfloor> \<le> roundEven z" "roundEven z \<le> \<lfloor>z\<rfloor> + 1"
  using roundEven_cases[of z] by presburger+

lemma roundEven_mono:
  assumes "z \<le> z'"
  shows "roundEven z \<le> roundEven z'"
proof (cases "\<lfloor>z\<rfloor> = \<lfloor>z'\<rfloor>")
  case True
  with assms show ?thesis
    by (auto simp: roundEven_def Let_def)
next
  case False
  with assms have "\<lfloor>z\<rfloor> < \<lfloor>z'\<rfloor>"
    using floor_mono[OF assms] by linarith
  then have "\<lfloor>z\<rfloor> + 1 \<le> \<lfloor>z'\<rfloor>" by simp
  with roundEven_bounds(2)[of z] roundEven_bounds(1)[of z'] show ?thesis by linarith
qed

lemma roundEven_minus: "roundEven (- z) = - roundEven z"
proof (cases "z = of_int \<lfloor>z\<rfloor>")
  case True
  have "roundEven (of_int (- \<lfloor>z\<rfloor>)) = - \<lfloor>z\<rfloor>" by (rule roundEven_of_int)
  then have "roundEven (- of_int \<lfloor>z\<rfloor>) = - \<lfloor>z\<rfloor>" by simp
  moreover have "roundEven (of_int \<lfloor>z\<rfloor>) = \<lfloor>z\<rfloor>" by (rule roundEven_of_int)
  ultimately show ?thesis using True by simp
next
  case False
  have r: "of_int \<lfloor>z\<rfloor> < z" "z < of_int \<lfloor>z\<rfloor> + 1"
    using False by linarith+
  have c: "of_int (- \<lfloor>z\<rfloor> - 1) = - of_int \<lfloor>z\<rfloor> - (1::real)" by simp
  have fm: "\<lfloor>- z\<rfloor> = - \<lfloor>z\<rfloor> - 1"
  proof (rule floor_unique)
    show "of_int (- \<lfloor>z\<rfloor> - 1) \<le> - z" unfolding c using r by linarith
    show "- z < of_int (- \<lfloor>z\<rfloor> - 1) + 1" unfolding c using r by linarith
  qed
  define f where "f = \<lfloor>z\<rfloor>"
  define d where "d = z - of_int f"
  have d: "0 < d" "d < 1" unfolding d_def f_def using r by linarith+
  have nd: "- z - of_int (- f - 1) = 1 - d" by (simp add: d_def)
  have ev: "even (- f - 1) \<longleftrightarrow> odd f" by simp
  have "roundEven (- z) =
      (if 1 - d < 1 / 2 then - f - 1 else if 1 / 2 < 1 - d then - f - 1 + 1
       else if even (- f - 1) then - f - 1 else - f - 1 + 1)"
    unfolding roundEven_def Let_def fm f_def[symmetric] nd ..
  moreover have "roundEven z =
      (if d < 1 / 2 then f else if 1 / 2 < d then f + 1 else if even f then f else f + 1)"
    unfolding roundEven_def Let_def f_def[symmetric] d_def[symmetric] ..
  ultimately show ?thesis
    using d ev by (cases "d < 1 / 2"; cases "1 / 2 < d"; cases "even f") simp_all
qed

lemma two_powi_pos [simp]: "0 < (2::real) powi e"
  by simp

lemma expo_bounds:
  assumes "x \<noteq> 0"
  shows "2 powi expo x \<le> \<bar>x\<bar>" and "\<bar>x\<bar> < 2 powi (expo x + 1)"
proof -
  let ?a = "\<bar>x\<bar>"
  have apos: "0 < ?a" using assms by simp
  have "2 powi expo x \<le> ?a \<and> ?a < 2 powi (expo x + 1)"
  proof (cases "1 \<le> ?a")
    case True
    let ?m = "\<lfloor>?a\<rfloor>"
    have m: "0 < ?m" using True by linarith
    let ?b = "bitlen ?m"
    from bitlen_bounds[OF m] have lo: "2 ^ nat (?b - 1) \<le> ?m" and hi: "?m < 2 ^ nat ?b" by auto
    have b1: "1 \<le> ?b" using m by (simp add: bitlen_alt_def)
    have e: "expo x = ?b - 1" using True by (simp add: expo_def)
    have "(2::real) powi (?b - 1) = 2 ^ nat (?b - 1)"
      using b1 by (simp add: power_int_nonneg_exp)
    also have "\<dots> = of_int (2 ^ nat (?b - 1))" by simp
    also have "\<dots> \<le> of_int ?m" using lo by (simp only: of_int_le_iff)
    also have "\<dots> \<le> ?a" by linarith
    finally have l: "2 powi expo x \<le> ?a" by (simp add: e)
    have "?m + 1 \<le> 2 ^ nat ?b" using hi by simp
    then have "(of_int (?m + 1) :: real) \<le> of_int (2 ^ nat ?b)" by (simp only: of_int_le_iff)
    then have "of_int ?m + 1 \<le> (2::real) ^ nat ?b" by simp
    moreover have "?a < of_int ?m + 1" by linarith
    ultimately have "?a < (2::real) ^ nat ?b" by linarith
    also have "\<dots> = 2 powi ?b" using b1 by (simp add: power_int_nonneg_exp)
    finally have "?a < 2 powi (expo x + 1)" by (simp add: e)
    with l show ?thesis by simp
  next
    case False
    then have a1: "?a < 1" by simp
    let ?y = "1 / ?a"
    have y1: "1 < ?y" using apos a1 by (simp add: field_simps)
    let ?m = "\<lceil>?y\<rceil> - 1"
    have m: "0 < ?m" using y1 by linarith
    let ?b = "bitlen ?m"
    from bitlen_bounds[OF m] have lo: "2 ^ nat (?b - 1) \<le> ?m" and hi: "?m < 2 ^ nat ?b" by auto
    have b1: "1 \<le> ?b" using m by (simp add: bitlen_alt_def)
    have e: "expo x = - ?b" using False by (simp add: expo_def)
    have "?m + 1 \<le> 2 ^ nat ?b" using hi by simp
    then have "(of_int (?m + 1) :: real) \<le> of_int (2 ^ nat ?b)" by (simp only: of_int_le_iff)
    then have "of_int \<lceil>?y\<rceil> \<le> (2::real) ^ nat ?b" by simp
    moreover have "?y \<le> of_int \<lceil>?y\<rceil>" by linarith
    ultimately have yb: "?y \<le> (2::real) ^ nat ?b" by linarith
    have p: "(0::real) < 2 ^ nat ?b" by simp
    from yb apos p have "1 / (2::real) ^ nat ?b \<le> ?a"
      by (simp add: field_simps)
    moreover have "(2::real) powi (- ?b) = 1 / 2 ^ nat ?b"
      using b1 by (simp add: power_int_minus power_int_nonneg_exp field_simps)
    ultimately have l: "2 powi expo x \<le> ?a" by (simp add: e)
    have "(of_int (2 ^ nat (?b - 1)) :: real) \<le> of_int ?m" using lo by (simp only: of_int_le_iff)
    then have "(2::real) ^ nat (?b - 1) \<le> of_int \<lceil>?y\<rceil> - 1" by simp
    moreover have "of_int \<lceil>?y\<rceil> - 1 < ?y" by linarith
    ultimately have "(2::real) ^ nat (?b - 1) < ?y" by linarith
    moreover have p': "(0::real) < 2 ^ nat (?b - 1)" by simp
    ultimately have "?a < 1 / (2::real) ^ nat (?b - 1)"
      using apos by (simp add: field_simps)
    moreover have "(2::real) powi (- ?b + 1) = 1 / 2 ^ nat (?b - 1)"
    proof -
      have "- ?b + 1 = - (?b - 1)" by simp
      then have "(2::real) powi (- ?b + 1) = inverse (2 powi (?b - 1))"
        by (simp only: power_int_minus)
      also have "\<dots> = 1 / 2 ^ nat (?b - 1)"
        using b1 by (simp add: power_int_nonneg_exp field_simps)
      finally show ?thesis .
    qed
    ultimately have "?a < 2 powi (expo x + 1)" by (simp add: e)
    with l show ?thesis by simp
  qed
  then show "2 powi expo x \<le> \<bar>x\<bar>" and "\<bar>x\<bar> < 2 powi (expo x + 1)" by simp_all
qed

lemma powi_less_imp_less:
  assumes "(2::real) powi a < 2 powi b"
  shows "a < b"
proof (rule ccontr)
  assume "\<not> a < b"
  then have "b \<le> a" by simp
  then have "(2::real) powi b \<le> 2 powi a" by (intro power_int_increasing) simp_all
  with assms show False by simp
qed

lemma expo_le:
  assumes "x \<noteq> 0" and "\<bar>x\<bar> < 2 ^ (k + 1)"
  shows "expo x \<le> int k"
proof -
  have "(2::real) powi expo x \<le> \<bar>x\<bar>" using expo_bounds(1)[OF assms(1)] .
  also have "\<dots> < 2 ^ (k + 1)" by (rule assms(2))
  also have "\<dots> = 2 powi int (k + 1)"
    by (simp only: power_int_of_nat)
  also have "int (k + 1) = int k + 1" by simp
  finally have "expo x < int k + 1" by (rule powi_less_imp_less)
  then show ?thesis by simp
qed

lemma fl_0 [simp]: "fl 0 = 0"
  by (simp add: fl_def)

lemma fl_err_expo:
  assumes "x \<noteq> 0"
  shows "\<bar>fl x - x\<bar> \<le> 2 powi (expo x - 52) / 2"
proof -
  let ?u = "(2::real) powi (expo x - 52)"
  have u: "0 < ?u" by simp
  have "fl x - x = (of_int (roundEven (x / ?u)) - x / ?u) * ?u"
    using assms u by (simp add: fl_def Let_def field_simps)
  then have "\<bar>fl x - x\<bar> = \<bar>of_int (roundEven (x / ?u)) - x / ?u\<bar> * ?u"
    using u by (simp add: abs_mult)
  also have "\<dots> \<le> (1 / 2) * ?u"
    using roundEven_err[of "x / ?u"] u by (intro mult_right_mono) simp_all
  finally show ?thesis by simp
qed

lemma fl_err:
  assumes "\<bar>x\<bar> < 2 ^ (k + 1)"
  shows "\<bar>fl x - x\<bar> \<le> 2 ^ k / 2 ^ 53"
proof (cases "x = 0")
  case True
  then show ?thesis by simp
next
  case False
  from expo_le[OF False assms] have "expo x - 52 \<le> int k - 52" by simp
  then have "(2::real) powi (expo x - 52) \<le> 2 powi (int k - 52)"
    by (intro power_int_increasing) simp_all
  also have "\<dots> = 2 ^ k / 2 ^ 52"
    by (simp add: power_int_diff)
  finally have "2 powi (expo x - 52) / 2 \<le> (2::real) ^ k / 2 ^ 53" by simp
  with fl_err_expo[OF False] show ?thesis by linarith
qed

lemma expo_minus [simp]: "expo (- x) = expo x"
  by (simp add: expo_def)

lemma fl_minus: "fl (- x) = - fl x"
  by (simp add: fl_def Let_def roundEven_minus)

lemma fl_bounds:
  assumes "0 < x"
  shows "2 powi expo x \<le> fl x" and "fl x \<le> 2 powi (expo x + 1)"
proof -
  let ?u = "(2::real) powi (expo x - 52)"
  have u: "0 < ?u" by simp
  have x0: "x \<noteq> 0" using assms by simp
  have f: "fl x = of_int (roundEven (x / ?u)) * ?u"
    using x0 by (simp add: fl_def Let_def)
  have lo: "2 powi expo x \<le> x" and hi: "x < 2 powi (expo x + 1)"
    using expo_bounds[OF x0] assms by simp_all
  have e1: "(2::real) powi expo x = 2 ^ 52 * ?u"
    by (simp add: power_int_diff)
  have e2: "(2::real) powi (expo x + 1) = 2 ^ 53 * ?u"
    by (simp add: power_int_diff power_int_add)
  have "(2::real) ^ 52 \<le> x / ?u" using lo u unfolding e1 by (simp add: field_simps)
  then have "roundEven (of_int (2 ^ 52)) \<le> roundEven (x / ?u)"
    by (intro roundEven_mono) simp
  then have "(2::int) ^ 52 \<le> roundEven (x / ?u)" by (simp only: roundEven_of_int)
  then have "(of_int (2 ^ 52) :: real) \<le> of_int (roundEven (x / ?u))" by (simp only: of_int_le_iff)
  then have "(2::real) ^ 52 * ?u \<le> of_int (roundEven (x / ?u)) * ?u"
    using u by (intro mult_right_mono) simp_all
  then show "2 powi expo x \<le> fl x" unfolding e1 f .
  have "x / ?u \<le> (2::real) ^ 53" using hi u unfolding e2 by (simp add: field_simps)
  then have "roundEven (x / ?u) \<le> roundEven (of_int (2 ^ 53))"
    by (intro roundEven_mono) simp
  then have "roundEven (x / ?u) \<le> (2::int) ^ 53" by (simp only: roundEven_of_int)
  then have "(of_int (roundEven (x / ?u)) :: real) \<le> of_int (2 ^ 53)" by (simp only: of_int_le_iff)
  then have "of_int (roundEven (x / ?u)) * ?u \<le> (2::real) ^ 53 * ?u"
    using u by (intro mult_right_mono) simp_all
  then show "fl x \<le> 2 powi (expo x + 1)" unfolding e2 f .
qed

lemma fl_nonneg: "0 \<le> x \<Longrightarrow> 0 \<le> fl x"
proof (cases "x = 0")
  case True
  then show ?thesis by simp
next
  case False
  assume "0 \<le> x"
  with False have "0 < x" by simp
  from fl_bounds(1)[OF this] show ?thesis
    using two_powi_pos[of "expo x"] by linarith
qed

lemma fl_mono_pos:
  assumes "0 < x" and "x \<le> y"
  shows "fl x \<le> fl y"
proof -
  have y: "0 < y" using assms by simp
  have x0: "x \<noteq> 0" and y0: "y \<noteq> 0" using assms by simp_all
  have "(2::real) powi expo x \<le> \<bar>x\<bar>" using expo_bounds(1)[OF x0] .
  also have "\<dots> \<le> \<bar>y\<bar>" using assms by simp
  also have "\<dots> < 2 powi (expo y + 1)" using expo_bounds(2)[OF y0] .
  finally have "expo x < expo y + 1" by (rule powi_less_imp_less)
  then have le: "expo x \<le> expo y" by simp
  show ?thesis
  proof (cases "expo x = expo y")
    case True
    let ?u = "(2::real) powi (expo x - 52)"
    have u: "0 < ?u" by simp
    have "x / ?u \<le> y / ?u" using assms u by (simp add: divide_right_mono)
    then have "roundEven (x / ?u) \<le> roundEven (y / ?u)" by (rule roundEven_mono)
    then have "(of_int (roundEven (x / ?u)) :: real) \<le> of_int (roundEven (y / ?u))"
      by (simp only: of_int_le_iff)
    then have "of_int (roundEven (x / ?u)) * ?u \<le> of_int (roundEven (y / ?u)) * ?u"
      using u by (intro mult_right_mono) simp_all
    then show ?thesis using x0 y0 True by (simp add: fl_def Let_def)
  next
    case False
    with le have "expo x + 1 \<le> expo y" by simp
    then have "(2::real) powi (expo x + 1) \<le> 2 powi expo y"
      by (intro power_int_increasing) simp_all
    with fl_bounds(2)[OF assms(1)] fl_bounds(1)[OF y] show ?thesis by linarith
  qed
qed

lemma fl_mono:
  assumes "x \<le> y"
  shows "fl x \<le> fl y"
proof -
  consider "0 < x" | "x \<le> 0" "0 \<le> y" | "y < 0" using assms by linarith
  then show ?thesis
  proof cases
    case 1
    then show ?thesis using assms by (rule fl_mono_pos)
  next
    case 2
    have "fl x \<le> 0" using fl_nonneg[of "- x"] 2(1) by (simp add: fl_minus)
    moreover have "0 \<le> fl y" using 2(2) by (rule fl_nonneg)
    ultimately show ?thesis by simp
  next
    case 3
    have "fl (- y) \<le> fl (- x)" using 3 assms by (intro fl_mono_pos) simp_all
    then show ?thesis by (simp add: fl_minus)
  qed
qed

subsection \<open>Tile planner\<close>

text \<open>The loops return when every addition of the tile size advances by at least some
  \<open>d > 0\<close>; the lemmas carry what the emitted tiles are.\<close>

lemma steps_exist:
  assumes "0 < (d::real)"
  shows "\<exists>k::nat. x \<le> real k * d"
proof -
  obtain k :: nat where "x / d \<le> real k" using real_arch_simple by blast
  with assms have "x \<le> real k * d" by (simp add: pos_divide_le_eq)
  then show ?thesis ..
qed

lemma lonLoop_steps:
  assumes d: "0 < d"
    and adv: "\<forall>x. lo \<le> x \<and> x < e \<longrightarrow> x + d \<le> fl (x + tileSize)"
  shows "lo \<le> lon \<Longrightarrow> e - lon \<le> real k * d \<Longrightarrow>
    \<exists>ts. lonLoop tileSize n e lat lon tiles = Some (tiles @ ts) \<and>
      (\<forall>t\<in>set ts. south t = lat \<and> north t = min (fl (lat + tileSize)) n \<and>
          lon \<le> west t \<and> west t < e \<and> east t = min (fl (west t + tileSize)) e) \<and>
      (\<forall>y. lon \<le> y \<and> y \<le> e \<and> lon < e \<longrightarrow> (\<exists>t\<in>set ts. west t \<le> y \<and> y \<le> east t))"
proof (induction k arbitrary: lon tiles)
  case 0
  then have "\<not> lon < e" by simp
  then have "lonLoop tileSize n e lat lon tiles = Some (tiles @ [])"
    by (subst lonLoop.simps) simp
  with \<open>\<not> lon < e\<close> show ?case by (intro exI[of _ "[]"]) simp
next
  case (Suc k)
  show ?case
  proof (cases "lon < e")
    case False
    then have "lonLoop tileSize n e lat lon tiles = Some (tiles @ [])"
      by (subst lonLoop.simps) simp
    with False show ?thesis by (intro exI[of _ "[]"]) simp
  next
    case True
    let ?next = "fl (lon + tileSize)"
    let ?t = "(lat, lon, min (fl (lat + tileSize)) n, min ?next e)"
    have step: "lon + d \<le> ?next" using adv Suc.prems(1) True by simp
    then have lo': "lo \<le> ?next" using Suc.prems(1) d by linarith
    from Suc.prems(2) step have "e - ?next \<le> real k * d"
      by (simp add: algebra_simps)
    from Suc.IH[OF lo' this, of "tiles @ [?t]"] obtain ts' where
      r: "lonLoop tileSize n e lat ?next (tiles @ [?t]) = Some ((tiles @ [?t]) @ ts')"
      and p: "\<forall>t\<in>set ts'. south t = lat \<and> north t = min (fl (lat + tileSize)) n \<and>
          ?next \<le> west t \<and> west t < e \<and> east t = min (fl (west t + tileSize)) e"
      and c: "\<forall>y. ?next \<le> y \<and> y \<le> e \<and> ?next < e \<longrightarrow> (\<exists>t\<in>set ts'. west t \<le> y \<and> y \<le> east t)"
      by blast
    have res: "lonLoop tileSize n e lat lon tiles = Some (tiles @ (?t # ts'))"
      using True r by (subst lonLoop.simps) simp
    have props: "\<forall>t\<in>set (?t # ts'). south t = lat \<and> north t = min (fl (lat + tileSize)) n \<and>
          lon \<le> west t \<and> west t < e \<and> east t = min (fl (west t + tileSize)) e"
    proof
      fix t assume "t \<in> set (?t # ts')"
      then consider "t = ?t" | "t \<in> set ts'" by auto
      then show "south t = lat \<and> north t = min (fl (lat + tileSize)) n \<and>
          lon \<le> west t \<and> west t < e \<and> east t = min (fl (west t + tileSize)) e"
      proof cases
        case 1
        with True show ?thesis by (simp add: south_def north_def west_def east_def)
      next
        case 2
        with p step d show ?thesis by force
      qed
    qed
    have cov: "\<forall>y. lon \<le> y \<and> y \<le> e \<and> lon < e \<longrightarrow> (\<exists>t\<in>set (?t # ts'). west t \<le> y \<and> y \<le> east t)"
    proof (intro allI impI)
      fix y assume y: "lon \<le> y \<and> y \<le> e \<and> lon < e"
      show "\<exists>t\<in>set (?t # ts'). west t \<le> y \<and> y \<le> east t"
      proof (cases "y \<le> ?next")
        case True
        with y have "west ?t \<le> y \<and> y \<le> east ?t" by (simp add: west_def east_def)
        then show ?thesis by (meson list.set_intros(1))
      next
        case False
        with y have "?next \<le> y \<and> y \<le> e \<and> ?next < e" by linarith
        with c obtain t where "t \<in> set ts'" "west t \<le> y \<and> y \<le> east t" by blast
        then show ?thesis by (meson list.set_intros(2))
      qed
    qed
    from res props cov show ?thesis by blast
  qed
qed

lemma lonLoop_total:
  assumes "0 < d" and "\<forall>x. w \<le> x \<and> x < e \<longrightarrow> x + d \<le> fl (x + tileSize)"
  shows "\<exists>ts. lonLoop tileSize n e lat w tiles = Some (tiles @ ts) \<and>
      (\<forall>t\<in>set ts. south t = lat \<and> north t = min (fl (lat + tileSize)) n \<and>
          w \<le> west t \<and> west t < e \<and> east t = min (fl (west t + tileSize)) e) \<and>
      (\<forall>y. w \<le> y \<and> y \<le> e \<and> w < e \<longrightarrow> (\<exists>t\<in>set ts. west t \<le> y \<and> y \<le> east t))"
proof -
  obtain k :: nat where "e - w \<le> real k * d"
    using steps_exist[OF assms(1)] by blast
  from lonLoop_steps[OF assms(1) assms(2) order_refl this] show ?thesis .
qed

lemma latLoop_steps:
  assumes d: "0 < d"
    and adv: "\<forall>x. lo \<le> x \<and> x < n \<longrightarrow> x + d \<le> fl (x + tileSize)"
    and advw: "\<forall>x. w \<le> x \<and> x < e \<longrightarrow> x + d \<le> fl (x + tileSize)"
  shows "lo \<le> lat \<Longrightarrow> n - lat \<le> real k * d \<Longrightarrow>
    \<exists>ts. latLoop tileSize w n e lat tiles = Some (tiles @ ts) \<and>
      (\<forall>t\<in>set ts. lat \<le> south t \<and> south t < n \<and> north t = min (fl (south t + tileSize)) n \<and>
          w \<le> west t \<and> west t < e \<and> east t = min (fl (west t + tileSize)) e) \<and>
      (\<forall>x y. lat \<le> x \<and> x \<le> n \<and> lat < n \<and> w \<le> y \<and> y \<le> e \<and> w < e
          \<longrightarrow> (\<exists>t\<in>set ts. in_box (x, y) t))"
proof (induction k arbitrary: lat tiles)
  case 0
  then have "\<not> lat < n" by simp
  then have "latLoop tileSize w n e lat tiles = Some (tiles @ [])"
    by (subst latLoop.simps) simp
  with \<open>\<not> lat < n\<close> show ?case by (intro exI[of _ "[]"]) simp
next
  case (Suc k)
  show ?case
  proof (cases "lat < n")
    case False
    then have "latLoop tileSize w n e lat tiles = Some (tiles @ [])"
      by (subst latLoop.simps) simp
    with False show ?thesis by (intro exI[of _ "[]"]) simp
  next
    case True
    let ?next = "fl (lat + tileSize)"
    have step: "lat + d \<le> ?next" using adv Suc.prems(1) True by simp
    then have lo': "lo \<le> ?next" using Suc.prems(1) d by linarith
    from lonLoop_total[OF d advw, of n lat tiles] obtain ts1 where
      r1: "lonLoop tileSize n e lat w tiles = Some (tiles @ ts1)"
      and p1: "\<forall>t\<in>set ts1. south t = lat \<and> north t = min (fl (lat + tileSize)) n \<and>
          w \<le> west t \<and> west t < e \<and> east t = min (fl (west t + tileSize)) e"
      and c1: "\<forall>y. w \<le> y \<and> y \<le> e \<and> w < e \<longrightarrow> (\<exists>t\<in>set ts1. west t \<le> y \<and> y \<le> east t)"
      by blast
    from Suc.prems(2) step have "n - ?next \<le> real k * d"
      by (simp add: algebra_simps)
    from Suc.IH[OF lo' this, of "tiles @ ts1"] obtain ts2 where
      r2: "latLoop tileSize w n e ?next (tiles @ ts1) = Some ((tiles @ ts1) @ ts2)"
      and p2: "\<forall>t\<in>set ts2. ?next \<le> south t \<and> south t < n \<and>
          north t = min (fl (south t + tileSize)) n \<and>
          w \<le> west t \<and> west t < e \<and> east t = min (fl (west t + tileSize)) e"
      and c2: "\<forall>x y. ?next \<le> x \<and> x \<le> n \<and> ?next < n \<and> w \<le> y \<and> y \<le> e \<and> w < e
          \<longrightarrow> (\<exists>t\<in>set ts2. in_box (x, y) t)"
      by blast
    have res: "latLoop tileSize w n e lat tiles = Some (tiles @ (ts1 @ ts2))"
      using True r1 r2 by (subst latLoop.simps) simp
    have props: "\<forall>t\<in>set (ts1 @ ts2). lat \<le> south t \<and> south t < n \<and>
          north t = min (fl (south t + tileSize)) n \<and>
          w \<le> west t \<and> west t < e \<and> east t = min (fl (west t + tileSize)) e"
    proof
      fix t assume "t \<in> set (ts1 @ ts2)"
      then consider "t \<in> set ts1" | "t \<in> set ts2" by auto
      then show "lat \<le> south t \<and> south t < n \<and> north t = min (fl (south t + tileSize)) n \<and>
          w \<le> west t \<and> west t < e \<and> east t = min (fl (west t + tileSize)) e"
      proof cases
        case 1
        with p1 True show ?thesis by simp
      next
        case 2
        with p2 step d show ?thesis by force
      qed
    qed
    have cov: "\<forall>x y. lat \<le> x \<and> x \<le> n \<and> lat < n \<and> w \<le> y \<and> y \<le> e \<and> w < e
          \<longrightarrow> (\<exists>t\<in>set (ts1 @ ts2). in_box (x, y) t)"
    proof (intro allI impI)
      fix x y
      assume a: "lat \<le> x \<and> x \<le> n \<and> lat < n \<and> w \<le> y \<and> y \<le> e \<and> w < e"
      show "\<exists>t\<in>set (ts1 @ ts2). in_box (x, y) t"
      proof (cases "x \<le> ?next")
        case True
        from a c1 obtain t where t: "t \<in> set ts1" "west t \<le> y \<and> y \<le> east t" by blast
        with p1 have "south t = lat" "north t = min ?next n" by auto
        with a True t have "in_box (x, y) t" by (simp add: in_box_def)
        with t show ?thesis by auto
      next
        case False
        with a have "?next \<le> x \<and> x \<le> n \<and> ?next < n \<and> w \<le> y \<and> y \<le> e \<and> w < e"
          by linarith
        with c2 obtain t where "t \<in> set ts2" "in_box (x, y) t" by blast
        then show ?thesis by auto
      qed
    qed
    from res props cov show ?thesis by blast
  qed
qed

lemma latLoop_total:
  assumes "0 < d"
    and "\<forall>x. s \<le> x \<and> x < n \<longrightarrow> x + d \<le> fl (x + tileSize)"
    and "\<forall>x. w \<le> x \<and> x < e \<longrightarrow> x + d \<le> fl (x + tileSize)"
  shows "\<exists>ts. latLoop tileSize w n e s [] = Some ts \<and>
      (\<forall>t\<in>set ts. s \<le> south t \<and> south t < n \<and> north t = min (fl (south t + tileSize)) n \<and>
          w \<le> west t \<and> west t < e \<and> east t = min (fl (west t + tileSize)) e) \<and>
      (\<forall>x y. s \<le> x \<and> x \<le> n \<and> s < n \<and> w \<le> y \<and> y \<le> e \<and> w < e
          \<longrightarrow> (\<exists>t\<in>set ts. in_box (x, y) t))"
proof -
  obtain k :: nat where "n - s \<le> real k * d"
    using steps_exist[OF assms(1)] by blast
  from latLoop_steps[OF assms(1) assms(2) assms(3) order_refl this, of "[]"] show ?thesis by simp
qed

text \<open>Inside the range of \<open>inRange\<close> an addition of the tile size errs by at most
  \<open>2 ^ k / 2 ^ 53\<close>, so it advances.\<close>

lemma add_in_range:
  assumes "0 < tileSize" and "\<bar>lo\<bar> + tileSize < 2 ^ (k + 1)" and "\<bar>hi\<bar> + tileSize < 2 ^ (k + 1)"
    and "lo \<le> x" and "x < hi"
  shows "\<bar>fl (x + tileSize) - (x + tileSize)\<bar> \<le> 2 ^ k / 2 ^ 53"
proof -
  have "\<bar>x + tileSize\<bar> < 2 ^ (k + 1)" using assms by (auto simp: abs_if split: if_splits)
  then show ?thesis by (rule fl_err)
qed

lemma advance_in_range:
  assumes "2 ^ k / 2 ^ 53 < tileSize"
    and "\<bar>lo\<bar> + tileSize < 2 ^ (k + 1)" and "\<bar>hi\<bar> + tileSize < 2 ^ (k + 1)"
  shows "\<forall>x. lo \<le> x \<and> x < hi \<longrightarrow> x + (tileSize - 2 ^ k / 2 ^ 53) \<le> fl (x + tileSize)"
proof (intro allI impI)
  fix x assume x: "lo \<le> x \<and> x < hi"
  have "(0::real) < 2 ^ k / 2 ^ 53" by simp
  with assms(1) have "0 < tileSize" by linarith
  from add_in_range[OF this assms(2) assms(3), of x] x
  have "\<bar>fl (x + tileSize) - (x + tileSize)\<bar> \<le> 2 ^ k / 2 ^ 53" by blast
  then show "x + (tileSize - 2 ^ k / 2 ^ 53) \<le> fl (x + tileSize)" by linarith
qed

lemma grid_covers:
  assumes r: "inRange k tileSize (s, w, n, e)" and sn: "s < n" and we: "w < e"
  shows "\<exists>tiles. latLoop tileSize w n e s [] = Some tiles \<and>
      (\<forall>p. in_box p (s, w, n, e) \<longleftrightarrow> (\<exists>t\<in>set tiles. in_box p t)) \<and>
      (\<forall>t\<in>set tiles. north t - south t \<le> tileSize + 2 ^ k / 2 ^ 53 \<and>
          east t - west t \<le> tileSize + 2 ^ k / 2 ^ 53 \<and>
          north t = min (fl (south t + tileSize)) n \<and>
          east t = min (fl (west t + tileSize)) e)"
proof -
  let ?eps = "(2::real) ^ k / 2 ^ 53"
  from r have big: "?eps < tileSize"
    and bs: "\<bar>s\<bar> + tileSize < 2 ^ (k + 1)" and bw: "\<bar>w\<bar> + tileSize < 2 ^ (k + 1)"
    and bn: "\<bar>n\<bar> + tileSize < 2 ^ (k + 1)" and be: "\<bar>e\<bar> + tileSize < 2 ^ (k + 1)"
    by (simp_all add: inRange_def south_def west_def north_def east_def)
  have d: "0 < tileSize - ?eps" using big by simp
  have pos: "0 < tileSize" using big by (smt (verit) divide_pos_pos zero_less_numeral zero_less_power)
  from latLoop_total[OF d advance_in_range[OF big bs bn] advance_in_range[OF big bw be]]
  obtain tiles where
    res: "latLoop tileSize w n e s [] = Some tiles"
    and p: "\<forall>t\<in>set tiles. s \<le> south t \<and> south t < n \<and> north t = min (fl (south t + tileSize)) n \<and>
          w \<le> west t \<and> west t < e \<and> east t = min (fl (west t + tileSize)) e"
    and c: "\<forall>x y. s \<le> x \<and> x \<le> n \<and> s < n \<and> w \<le> y \<and> y \<le> e \<and> w < e
          \<longrightarrow> (\<exists>t\<in>set tiles. in_box (x, y) t)"
    by blast
  have cover: "\<forall>p. in_box p (s, w, n, e) \<longleftrightarrow> (\<exists>t\<in>set tiles. in_box p t)"
  proof (intro allI iffI)
    fix q :: "real \<times> real"
    assume "in_box q (s, w, n, e)"
    then have "s \<le> fst q \<and> fst q \<le> n \<and> s < n \<and> w \<le> snd q \<and> snd q \<le> e \<and> w < e"
      using sn we by (simp add: in_box_def south_def west_def north_def east_def)
    with c have "\<exists>t\<in>set tiles. in_box (fst q, snd q) t" by blast
    then show "\<exists>t\<in>set tiles. in_box q t" by simp
  next
    fix q :: "real \<times> real"
    assume "\<exists>t\<in>set tiles. in_box q t"
    then obtain t where t: "t \<in> set tiles" "in_box q t" by blast
    with p have "s \<le> south t" "north t \<le> n" "w \<le> west t" "east t \<le> e" by auto
    with t(2) show "in_box q (s, w, n, e)"
      by (simp add: in_box_def south_def west_def north_def east_def)
  qed
  have size: "\<forall>t\<in>set tiles. north t - south t \<le> tileSize + ?eps \<and>
          east t - west t \<le> tileSize + ?eps \<and>
          north t = min (fl (south t + tileSize)) n \<and>
          east t = min (fl (west t + tileSize)) e"
  proof
    fix t assume t: "t \<in> set tiles"
    with p have ps: "s \<le> south t" "south t < n" "north t = min (fl (south t + tileSize)) n"
      and pw: "w \<le> west t" "west t < e" "east t = min (fl (west t + tileSize)) e"
      by auto
    from add_in_range[OF pos bs bn ps(1) ps(2)]
    have "fl (south t + tileSize) \<le> south t + tileSize + ?eps" by linarith
    with ps(3) have 1: "north t - south t \<le> tileSize + ?eps" by (simp add: min_def split: if_splits)
    from add_in_range[OF pos bw be pw(1) pw(2)]
    have "fl (west t + tileSize) \<le> west t + tileSize + ?eps" by linarith
    with pw(3) have 2: "east t - west t \<le> tileSize + ?eps" by (simp add: min_def split: if_splits)
    from 1 2 ps(3) pw(3) show "north t - south t \<le> tileSize + ?eps \<and>
          east t - west t \<le> tileSize + ?eps \<and>
          north t = min (fl (south t + tileSize)) n \<and>
          east t = min (fl (west t + tileSize)) e" by simp
  qed
  from res cover size show ?thesis by blast
qed

text \<open>With its coordinates in range the planner returns, whatever the order of the
  box's edges.\<close>

lemma latLoop_returns:
  assumes r: "inRange k tileSize (s, w, n, e)"
  shows "\<exists>tiles. latLoop tileSize w n e s [] = Some tiles"
proof -
  let ?eps = "(2::real) ^ k / 2 ^ 53"
  from r have big: "?eps < tileSize"
    and bs: "\<bar>s\<bar> + tileSize < 2 ^ (k + 1)" and bw: "\<bar>w\<bar> + tileSize < 2 ^ (k + 1)"
    and bn: "\<bar>n\<bar> + tileSize < 2 ^ (k + 1)" and be: "\<bar>e\<bar> + tileSize < 2 ^ (k + 1)"
    by (simp_all add: inRange_def south_def west_def north_def east_def)
  have d: "0 < tileSize - ?eps" using big by simp
  from latLoop_total[OF d advance_in_range[OF big bs bn] advance_in_range[OF big bw be]]
  show ?thesis by blast
qed

lemma getTiles_returns:
  assumes "inRange k tileSize b"
  shows "\<exists>tiles. getTiles b tileSize = Some tiles"
proof -
  obtain s w n e where b: "b = (s, w, n, e)" by (cases b) auto
  from latLoop_returns[OF assms[unfolded b]] show ?thesis
    by (auto simp: getTiles_def b)
qed

lemma getTiles_ext_returns:
  assumes "inRange k TILE_SIZE_DEG b"
  shows "\<exists>tiles. getTiles_ext b = Some tiles"
proof -
  obtain s w n e where b: "b = (s, w, n, e)" by (cases b) auto
  from latLoop_returns[OF assms[unfolded b]] show ?thesis
    by (auto simp: getTiles_ext_def b Let_def)
qed

lemma boundedBox_inRange:
  assumes "boundedBox b"
  shows "inRange 52 (TILE_SIZES sz) b" and "inRange 52 TILE_SIZE_DEG b"
  using assms by (cases sz; simp add: inRange_def boundedBox_def TILE_SIZE_DEG_def)+

lemma getTiles_total:
  assumes "boundedBox b"
  shows "\<exists>tiles. getTiles b (TILE_SIZES sz) = Some tiles"
  using getTiles_returns[OF boundedBox_inRange(1)[OF assms]] .

lemma getTiles_ext_total:
  assumes "boundedBox b"
  shows "\<exists>tiles. getTiles_ext b = Some tiles"
  using getTiles_ext_returns[OF boundedBox_inRange(2)[OF assms]] .

lemma kazakhstan_box:
  "c_bbox kazakhstan =
     (5709719902575657 / 140737488355328, 6542885833639199 / 140737488355328,
      975310794302423 / 17592186044416, 1535973763537961 / 17592186044416)"
  by (simp add: kazakhstan_def fl_def expo_def roundEven_def compute_bitlen)

lemma kazakhstan_size: "TILE_SIZES (getCountrySize ''kazakhstan'') = 6"
  by (simp add: getCountrySize_def truthyProperty_def inheritedKeys_def COUNTRIES_SMALL_def
      COUNTRIES_MEDIUM_def COUNTRIES_LARGE_def)

lemma kazakhstan_tiles:
  "getTiles (c_bbox kazakhstan) 6 = Some
  [(5709719902575657 / 140737488355328, 6542885833639199 / 140737488355328,
    6554144832707625 / 140737488355328, 7387310763771167 / 140737488355328),
   (5709719902575657 / 140737488355328, 7387310763771167 / 140737488355328,
    6554144832707625 / 140737488355328, 8231735693903135 / 140737488355328),
   (5709719902575657 / 140737488355328, 8231735693903135 / 140737488355328,
    6554144832707625 / 140737488355328, 283630019501097 / 4398046511104),
   (5709719902575657 / 140737488355328, 283630019501097 / 4398046511104,
    6554144832707625 / 140737488355328, 310018298567721 / 4398046511104),
   (5709719902575657 / 140737488355328, 310018298567721 / 4398046511104,
    6554144832707625 / 140737488355328, 336406577634345 / 4398046511104),
   (5709719902575657 / 140737488355328, 336406577634345 / 4398046511104,
    6554144832707625 / 140737488355328, 362794856700969 / 4398046511104),
   (5709719902575657 / 140737488355328, 362794856700969 / 4398046511104,
    6554144832707625 / 140737488355328, 1535973763537961 / 17592186044416),
   (6554144832707625 / 140737488355328, 6542885833639199 / 140737488355328,
    7398569762839593 / 140737488355328, 7387310763771167 / 140737488355328),
   (6554144832707625 / 140737488355328, 7387310763771167 / 140737488355328,
    7398569762839593 / 140737488355328, 8231735693903135 / 140737488355328),
   (6554144832707625 / 140737488355328, 8231735693903135 / 140737488355328,
    7398569762839593 / 140737488355328, 283630019501097 / 4398046511104),
   (6554144832707625 / 140737488355328, 283630019501097 / 4398046511104,
    7398569762839593 / 140737488355328, 310018298567721 / 4398046511104),
   (6554144832707625 / 140737488355328, 310018298567721 / 4398046511104,
    7398569762839593 / 140737488355328, 336406577634345 / 4398046511104),
   (6554144832707625 / 140737488355328, 336406577634345 / 4398046511104,
    7398569762839593 / 140737488355328, 362794856700969 / 4398046511104),
   (6554144832707625 / 140737488355328, 362794856700969 / 4398046511104,
    7398569762839593 / 140737488355328, 1535973763537961 / 17592186044416),
   (7398569762839593 / 140737488355328, 6542885833639199 / 140737488355328,
    975310794302423 / 17592186044416, 7387310763771167 / 140737488355328),
   (7398569762839593 / 140737488355328, 7387310763771167 / 140737488355328,
    975310794302423 / 17592186044416, 8231735693903135 / 140737488355328),
   (7398569762839593 / 140737488355328, 8231735693903135 / 140737488355328,
    975310794302423 / 17592186044416, 283630019501097 / 4398046511104),
   (7398569762839593 / 140737488355328, 283630019501097 / 4398046511104,
    975310794302423 / 17592186044416, 310018298567721 / 4398046511104),
   (7398569762839593 / 140737488355328, 310018298567721 / 4398046511104,
    975310794302423 / 17592186044416, 336406577634345 / 4398046511104),
   (7398569762839593 / 140737488355328, 336406577634345 / 4398046511104,
    975310794302423 / 17592186044416, 362794856700969 / 4398046511104),
   (7398569762839593 / 140737488355328, 362794856700969 / 4398046511104,
    975310794302423 / 17592186044416, 1535973763537961 / 17592186044416)]"
  unfolding kazakhstan_box
  by (simp add: getTiles_def latLoop.simps lonLoop.simps fl_def expo_def roundEven_def
      compute_bitlen)

text \<open>
  C1. For a box with south < north and west < east whose coordinates and tile
  size are in range \<open>k\<close>, whenever the latitude span or the longitude span, as the code
  computes it, exceeds the threshold (the tile size in part_000, 15 degrees in
  extract.js) the planner returns, and the tiles it returns cover exactly the points of
  the box. The north edge of every tile is the rounded sum of its south edge and the
  tile size, or the box's north edge when that is smaller, and likewise for the east
  edge; so a tile exceeds the tile size by at most the rounding error \<open>2 ^ k / 2 ^ 53\<close>
  of one addition. The box [0,0,10,10] with tile size 6 gives the four tiles
  [0,0,6,6], [0,6,6,10], [6,0,10,6], [6,6,10,10].
\<close>

theorem tiles_cover_box:
  assumes "s < n" and "w < e"
  shows "(inRange k tileSize (s, w, n, e) \<and> (tileSize < fl (n - s) \<or> tileSize < fl (e - w)) \<longrightarrow>
            (\<exists>tiles. getTiles (s, w, n, e) tileSize = Some tiles \<and>
               (\<forall>p. in_box p (s, w, n, e) \<longleftrightarrow> (\<exists>t\<in>set tiles. in_box p t)) \<and>
               (\<forall>t\<in>set tiles.
                  north t - south t \<le> tileSize + 2 ^ k / 2 ^ 53 \<and>
                  east t - west t \<le> tileSize + 2 ^ k / 2 ^ 53 \<and>
                  north t = min (fl (south t + tileSize)) n \<and>
                  east t = min (fl (west t + tileSize)) e))) \<and>
         (inRange k TILE_SIZE_DEG (s, w, n, e) \<and>
          (TILE_THRESHOLD_DEG < fl (n - s) \<or> TILE_THRESHOLD_DEG < fl (e - w)) \<longrightarrow>
            (\<exists>tiles. getTiles_ext (s, w, n, e) = Some tiles \<and>
               (\<forall>p. in_box p (s, w, n, e) \<longleftrightarrow> (\<exists>t\<in>set tiles. in_box p t)) \<and>
               (\<forall>t\<in>set tiles.
                  north t - south t \<le> TILE_SIZE_DEG + 2 ^ k / 2 ^ 53 \<and>
                  east t - west t \<le> TILE_SIZE_DEG + 2 ^ k / 2 ^ 53 \<and>
                  north t = min (fl (south t + TILE_SIZE_DEG)) n \<and>
                  east t = min (fl (west t + TILE_SIZE_DEG)) e))) \<and>
         getTiles (0, 0, 10, 10) 6 = Some [(0, 0, 6, 6), (0, 6, 6, 10), (6, 0, 10, 6), (6, 6, 10, 10)]"
proof (intro conjI impI)
  assume a: "inRange k tileSize (s, w, n, e) \<and> (tileSize < fl (n - s) \<or> tileSize < fl (e - w))"
  then have "getTiles (s, w, n, e) tileSize = latLoop tileSize w n e s []"
    by (auto simp: getTiles_def)
  with grid_covers[OF conjunct1[OF a] assms(1) assms(2)]
  show "\<exists>tiles. getTiles (s, w, n, e) tileSize = Some tiles \<and>
               (\<forall>p. in_box p (s, w, n, e) \<longleftrightarrow> (\<exists>t\<in>set tiles. in_box p t)) \<and>
               (\<forall>t\<in>set tiles.
                  north t - south t \<le> tileSize + 2 ^ k / 2 ^ 53 \<and>
                  east t - west t \<le> tileSize + 2 ^ k / 2 ^ 53 \<and>
                  north t = min (fl (south t + tileSize)) n \<and>
                  east t = min (fl (west t + tileSize)) e)"
    by simp
next
  assume a: "inRange k TILE_SIZE_DEG (s, w, n, e) \<and>
          (TILE_THRESHOLD_DEG < fl (n - s) \<or> TILE_THRESHOLD_DEG < fl (e - w))"
  then have "getTiles_ext (s, w, n, e) = latLoop TILE_SIZE_DEG w n e s []"
    by (auto simp: getTiles_ext_def Let_def)
  with grid_covers[OF conjunct1[OF a] assms(1) assms(2)]
  show "\<exists>tiles. getTiles_ext (s, w, n, e) = Some tiles \<and>
               (\<forall>p. in_box p (s, w, n, e) \<longleftrightarrow> (\<exists>t\<in>set tiles. in_box p t)) \<and>
               (\<forall>t\<in>set tiles.
                  north t - south t \<le> TILE_SIZE_DEG + 2 ^ k / 2 ^ 53 \<and>
                  east t - west t \<le> TILE_SIZE_DEG + 2 ^ k / 2 ^ 53 \<and>
                  north t = min (fl (south t + TILE_SIZE_DEG)) n \<and>
                  east t = min (fl (west t + TILE_SIZE_DEG)) e)"
    by simp
next
  show "getTiles (0, 0, 10, 10) 6 = Some [(0, 0, 6, 6), (0, 6, 6, 10), (6, 0, 10, 6), (6, 6, 10, 10)]"
    by (simp add: getTiles_def latLoop.simps lonLoop.simps fl_def expo_def roundEven_def
        compute_bitlen)
qed

theorem tiles_cover_box_witness:
  "south (c_bbox kazakhstan) < north (c_bbox kazakhstan) \<and>
   west (c_bbox kazakhstan) < east (c_bbox kazakhstan) \<and>
   inRange 7 6 (c_bbox kazakhstan) \<and>
   (6 < fl (north (c_bbox kazakhstan) - south (c_bbox kazakhstan)) \<or>
    6 < fl (east (c_bbox kazakhstan) - west (c_bbox kazakhstan))) \<and>
   (\<exists>tiles. getTiles (c_bbox kazakhstan) 6 = Some tiles \<and>
      (\<forall>p. in_box p (c_bbox kazakhstan) \<longleftrightarrow> (\<exists>t\<in>set tiles. in_box p t)) \<and>
      (\<forall>t\<in>set tiles.
         north t - south t \<le> 6 + 2 ^ 7 / 2 ^ 53 \<and>
         east t - west t \<le> 6 + 2 ^ 7 / 2 ^ 53 \<and>
         north t = min (fl (south t + 6)) (north (c_bbox kazakhstan)) \<and>
         east t = min (fl (west t + 6)) (east (c_bbox kazakhstan)))) \<and>
   inRange 7 TILE_SIZE_DEG (c_bbox kazakhstan) \<and>
   (TILE_THRESHOLD_DEG < fl (north (c_bbox kazakhstan) - south (c_bbox kazakhstan)) \<or>
    TILE_THRESHOLD_DEG < fl (east (c_bbox kazakhstan) - west (c_bbox kazakhstan))) \<and>
   (\<exists>tiles. getTiles_ext (c_bbox kazakhstan) = Some tiles \<and>
      (\<forall>p. in_box p (c_bbox kazakhstan) \<longleftrightarrow> (\<exists>t\<in>set tiles. in_box p t)) \<and>
      (\<forall>t\<in>set tiles.
         north t - south t \<le> TILE_SIZE_DEG + 2 ^ 7 / 2 ^ 53 \<and>
         east t - west t \<le> TILE_SIZE_DEG + 2 ^ 7 / 2 ^ 53 \<and>
         north t = min (fl (south t + TILE_SIZE_DEG)) (north (c_bbox kazakhstan)) \<and>
         east t = min (fl (west t + TILE_SIZE_DEG)) (east (c_bbox kazakhstan))))"
proof -
  let ?s = "5709719902575657 / 140737488355328 :: real"
  let ?w = "6542885833639199 / 140737488355328 :: real"
  let ?n = "975310794302423 / 17592186044416 :: real"
  let ?e = "1535973763537961 / 17592186044416 :: real"
  have c: "south (c_bbox kazakhstan) = ?s" "west (c_bbox kazakhstan) = ?w"
    "north (c_bbox kazakhstan) = ?n" "east (c_bbox kazakhstan) = ?e"
    by (simp_all add: kazakhstan_box south_def west_def north_def east_def)
  have a: "?s < ?n" "?w < ?e" by simp_all
  have r: "inRange 7 6 (?s, ?w, ?n, ?e)" "inRange 7 TILE_SIZE_DEG (?s, ?w, ?n, ?e)"
    by (simp_all add: inRange_def TILE_SIZE_DEG_def south_def west_def north_def east_def)
  have g: "6 < fl (?n - ?s) \<or> 6 < fl (?e - ?w)"
    "TILE_THRESHOLD_DEG < fl (?n - ?s) \<or> TILE_THRESHOLD_DEG < fl (?e - ?w)"
    by (simp_all add: TILE_THRESHOLD_DEG_def fl_def expo_def roundEven_def compute_bitlen)
  note inst = tiles_cover_box[OF a, of 7 6]
  note p1 = inst[THEN conjunct1, THEN mp, OF conjI[OF r(1) g(1)]]
  note p2 = inst[THEN conjunct2, THEN conjunct1, THEN mp, OF conjI[OF r(2) g(2)]]
  show ?thesis
    unfolding c
    using a r g p1 p2 unfolding kazakhstan_box[symmetric]
    by (intro conjI) assumption+
qed

text \<open>
  A tile can be wider than the tile size without ending at the box's east edge, since
  the tile size is added to the running longitude with rounding. For Kazakhstan,
  \<^verbatim>\<open>[40.57, 46.49, 55.44, 87.31]\<close> with its tile size 6, the planner returns 21 tiles,
  and the third one runs from the double 58.49 to the double 64.49000000000001: it is
  wider than 6 by \<open>1 / 2 ^ 47\<close>, ends west of the box's east edge and south of its north
  edge.
\<close>

theorem kazakhstan_tile_wider_than_tile_size:
  "\<exists>tiles. getTiles (c_bbox kazakhstan) (TILE_SIZES (getCountrySize ''kazakhstan'')) = Some tiles \<and>
     TILE_SIZES (getCountrySize ''kazakhstan'') = 6 \<and>
     length tiles = 21 \<and>
     west (tiles ! 2) = fl (5849 / 100) \<and>
     east (tiles ! 2) = fl (6449000000000001 / 100000000000000) \<and>
     east (tiles ! 2) - west (tiles ! 2) = 6 + 1 / 2 ^ 47 \<and>
     east (tiles ! 2) < east (c_bbox kazakhstan) \<and>
     north (tiles ! 2) < north (c_bbox kazakhstan) \<and>
     6 < fl (east (c_bbox kazakhstan) - west (c_bbox kazakhstan))"
  unfolding kazakhstan_size kazakhstan_tiles
  by (simp add: kazakhstan_box west_def east_def north_def fl_def expo_def roundEven_def
      compute_bitlen)

text \<open>
  C6. A box whose latitude span and longitude span are both at most the tile size, a
  double, comes back alone and unchanged, in part_000 and (its tile size being below
  its threshold) in extract.js: the rounding of a span that is at most a double is at
  most that double. The box [0,0,10,10] with tile size 20 gives [[0,0,10,10]].
\<close>

theorem small_box_single_tile:
  "(fl tileSize = tileSize \<and> n - s \<le> tileSize \<and> e - w \<le> tileSize \<longrightarrow>
      getTiles (s, w, n, e) tileSize = Some [(s, w, n, e)]) \<and>
   (n - s \<le> TILE_SIZE_DEG \<and> e - w \<le> TILE_SIZE_DEG \<longrightarrow> getTiles_ext (s, w, n, e) = Some [(s, w, n, e)]) \<and>
   getTiles (0, 0, 10, 10) 20 = Some [(0, 0, 10, 10)]"
proof (intro conjI impI)
  assume a: "fl tileSize = tileSize \<and> n - s \<le> tileSize \<and> e - w \<le> tileSize"
  have "fl (n - s) \<le> fl tileSize" by (rule fl_mono) (use a in blast)
  moreover have "fl (e - w) \<le> fl tileSize" by (rule fl_mono) (use a in blast)
  ultimately have "fl (n - s) \<le> tileSize \<and> fl (e - w) \<le> tileSize" using a by simp
  then show "getTiles (s, w, n, e) tileSize = Some [(s, w, n, e)]"
    by (simp add: getTiles_def)
next
  assume a: "n - s \<le> TILE_SIZE_DEG \<and> e - w \<le> TILE_SIZE_DEG"
  have t: "fl TILE_SIZE_DEG = TILE_SIZE_DEG"
    by (simp add: TILE_SIZE_DEG_def fl_def expo_def roundEven_def compute_bitlen)
  have "fl (n - s) \<le> fl TILE_SIZE_DEG" by (rule fl_mono) (use a in blast)
  moreover have "fl (e - w) \<le> fl TILE_SIZE_DEG" by (rule fl_mono) (use a in blast)
  ultimately have "fl (n - s) \<le> TILE_THRESHOLD_DEG" "fl (e - w) \<le> TILE_THRESHOLD_DEG"
    unfolding t by (simp_all add: TILE_SIZE_DEG_def TILE_THRESHOLD_DEG_def)
  then show "getTiles_ext (s, w, n, e) = Some [(s, w, n, e)]"
    by (simp add: getTiles_ext_def)
next
  show "getTiles (0, 0, 10, 10) 20 = Some [(0, 0, 10, 10)]"
    by (simp add: getTiles_def fl_def expo_def roundEven_def compute_bitlen)
qed

theorem small_box_single_tile_witness:
  "(fl 8 = 8 \<and> fl (4191 / 100) - fl (3839 / 100) \<le> 8 \<and> fl (5063 / 100) - fl (4477 / 100) \<le> 8) \<and>
   getTiles (fl (3839 / 100), fl (4477 / 100), fl (4191 / 100), fl (5063 / 100)) 8 =
     Some [(fl (3839 / 100), fl (4477 / 100), fl (4191 / 100), fl (5063 / 100))] \<and>
   (fl (4191 / 100) - fl (3839 / 100) \<le> TILE_SIZE_DEG \<and>
    fl (5063 / 100) - fl (4477 / 100) \<le> TILE_SIZE_DEG) \<and>
   getTiles_ext (fl (3839 / 100), fl (4477 / 100), fl (4191 / 100), fl (5063 / 100)) =
     Some [(fl (3839 / 100), fl (4477 / 100), fl (4191 / 100), fl (5063 / 100))]"
proof -
  have a: "fl 8 = 8 \<and> fl (4191 / 100) - fl (3839 / 100) \<le> 8 \<and> fl (5063 / 100) - fl (4477 / 100) \<le> 8"
    by (simp add: fl_def expo_def roundEven_def compute_bitlen)
  have b: "fl (4191 / 100) - fl (3839 / 100) \<le> TILE_SIZE_DEG \<and>
    fl (5063 / 100) - fl (4477 / 100) \<le> TILE_SIZE_DEG"
    by (simp add: TILE_SIZE_DEG_def fl_def expo_def roundEven_def compute_bitlen)
  note inst = small_box_single_tile[of 8 "fl (4191 / 100)" "fl (3839 / 100)" "fl (5063 / 100)"
      "fl (4477 / 100)"]
  note p1 = inst[THEN conjunct1, THEN mp, OF a]
  note p2 = inst[THEN conjunct2, THEN conjunct1, THEN mp, OF b]
  show ?thesis by (rule conjI[OF a conjI[OF p1 conjI[OF b p2]]])
qed


subsection \<open>Query client\<close>






text \<open>Which requests a run makes, and what follows a server error.\<close>

lemma attemptLoop_fetches:
  "Fetch ep a \<in> set (snd (attemptLoop net endpoint attempt)) \<Longrightarrow>
     ep = endpoint \<and> attempt \<le> a \<and> a < MAX_RETRIES"
proof (induction net endpoint attempt rule: attemptLoop.induct)
  case (1 net endpoint attempt)
  show ?case
  proof (cases "attempt < MAX_RETRIES")
    case False
    with "1.prems" show ?thesis by (subst (asm) attemptLoop.simps) simp
  next
    case True
    show ?thesis
    proof (cases "net endpoint attempt")
      case (Response status body)
      with True "1.prems" "1.IH"(1,2,3) show ?thesis
        by (subst (asm) attemptLoop.simps)
          (auto simp: emit_def split: if_splits json_body.splits)
    next
      case (Throws e)
      with True "1.prems" "1.IH"(4) show ?thesis
        by (subst (asm) attemptLoop.simps) (auto simp: emit_def split: if_splits)
    qed
  qed
qed

lemma attemptLoop_server_error:
  "Fetch endpoint a \<in> set (snd (attemptLoop net endpoint attempt)) \<Longrightarrow>
   net endpoint a = Response status body \<Longrightarrow> 500 \<le> status \<Longrightarrow>
     \<exists>pre. attemptLoop net endpoint attempt = (NextEndpoint, pre @ [Fetch endpoint a]) \<and>
           (\<forall>ep' a'. Fetch ep' a' \<in> set pre \<longrightarrow> a' < a)"
proof (induction net endpoint attempt rule: attemptLoop.induct)
  case (1 net endpoint attempt)
  from attemptLoop_fetches[OF "1.prems"(1)] have range: "attempt \<le> a" "a < MAX_RETRIES" by auto
  then have lt: "attempt < MAX_RETRIES" by simp
  show ?case
  proof (cases "a = attempt")
    case True
    with "1.prems" lt have "attemptLoop net endpoint attempt = (NextEndpoint, [] @ [Fetch endpoint a])"
      by (subst attemptLoop.simps) simp
    then show ?thesis by (intro exI[of _ "[]"]) simp
  next
    case False
    with range have gt: "attempt < a" by simp
    have step: "\<exists>evs. attemptLoop net endpoint attempt = emit (Fetch endpoint attempt # evs) (attemptLoop net endpoint (attempt + 1))
        \<and> Fetch endpoint a \<in> set (snd (attemptLoop net endpoint (attempt + 1)))
        \<and> (\<forall>ep' a'. Fetch ep' a' \<in> set evs \<longrightarrow> False)
        \<and> (\<exists>pre. attemptLoop net endpoint (attempt + 1) = (NextEndpoint, pre @ [Fetch endpoint a]) \<and>
           (\<forall>ep' a'. Fetch ep' a' \<in> set pre \<longrightarrow> a' < a))"
    proof (cases "net endpoint attempt")
      case (Response st b)
      with lt False "1.prems" "1.IH"(1,2,3) show ?thesis
        by (subst attemptLoop.simps, subst (asm) attemptLoop.simps)
          (auto simp: emit_def split: if_splits json_body.splits)
    next
      case (Throws e)
      with lt False "1.prems" "1.IH"(4) show ?thesis
        by (subst attemptLoop.simps, subst (asm) attemptLoop.simps)
          (auto simp: emit_def split: if_splits)
    qed
    then obtain evs pre where
      e: "attemptLoop net endpoint attempt = emit (Fetch endpoint attempt # evs) (attemptLoop net endpoint (attempt + 1))"
      and nofetch: "\<forall>ep' a'. Fetch ep' a' \<in> set evs \<longrightarrow> False"
      and r: "attemptLoop net endpoint (attempt + 1) = (NextEndpoint, pre @ [Fetch endpoint a])"
      and p: "\<forall>ep' a'. Fetch ep' a' \<in> set pre \<longrightarrow> a' < a"
      by blast
    have "attemptLoop net endpoint attempt = (NextEndpoint, (Fetch endpoint attempt # evs @ pre) @ [Fetch endpoint a])"
      using e r by (simp add: emit_def)
    moreover have "\<forall>ep' a'. Fetch ep' a' \<in> set (Fetch endpoint attempt # evs @ pre) \<longrightarrow> a' < a"
      using nofetch p gt by auto
    ultimately show ?thesis by blast
  qed
qed

lemma endpointLoop_fetches:
  "Fetch ep a \<in> set (snd (endpointLoop net eps)) \<Longrightarrow> ep \<in> set eps"
proof (induction eps)
  case Nil
  then show ?case by simp
next
  case (Cons e eps)
  obtain r tr where al: "attemptLoop net e 0 = (r, tr)" by (cases "attemptLoop net e 0")
  obtain d tr' where el: "endpointLoop net eps = (d, tr')" by (cases "endpointLoop net eps")
  from Cons.prems al el have "Fetch ep a \<in> set tr \<or> Fetch ep a \<in> set tr'"
    by (auto split: loop_exit.splits)
  then show ?case
  proof
    assume "Fetch ep a \<in> set tr"
    with al have "Fetch ep a \<in> set (snd (attemptLoop net e 0))" by simp
    from attemptLoop_fetches[OF this] show ?thesis by simp
  next
    assume "Fetch ep a \<in> set tr'"
    with el Cons.IH show ?thesis by simp
  qed
qed

lemma endpointLoop_server_error:
  assumes "distinct eps"
    and "Fetch ep a \<in> set (snd (endpointLoop net eps))"
    and "net ep a = Response status body" and "500 \<le> status"
  shows "\<exists>pre. snd (endpointLoop net eps) =
             pre @ Fetch ep a # snd (endpointLoop net (tl (dropWhile (\<lambda>x. x \<noteq> ep) eps))) \<and>
           fst (endpointLoop net eps) = fst (endpointLoop net (tl (dropWhile (\<lambda>x. x \<noteq> ep) eps))) \<and>
           (\<forall>a'. Fetch ep a' \<in> set pre \<longrightarrow> a' < a)"
  using assms(1,2)
proof (induction eps)
  case Nil
  then show ?case by simp
next
  case (Cons e eps)
  obtain r tr where al: "attemptLoop net e 0 = (r, tr)" by (cases "attemptLoop net e 0")
  obtain d tr' where el: "endpointLoop net eps = (d, tr')" by (cases "endpointLoop net eps")
  show ?case
  proof (cases "ep = e")
    case True
    have "Fetch ep a \<notin> set tr'"
      using endpointLoop_fetches[of ep a net eps] el Cons.prems(1) True by auto
    with Cons.prems(2) al el have "Fetch e a \<in> set (snd (attemptLoop net e 0))"
      using True by (auto split: loop_exit.splits)
    from attemptLoop_server_error[OF this] assms(3,4) True obtain pre where
      pre: "attemptLoop net e 0 = (NextEndpoint, pre @ [Fetch e a])"
      "\<forall>ep' a'. Fetch ep' a' \<in> set pre \<longrightarrow> a' < a"
      by blast
    with True el show ?thesis by (intro exI[of _ pre]) simp
  next
    case False
    have notin: "Fetch ep a \<notin> set tr"
      using attemptLoop_fetches[of ep a net e 0] al False by auto
    with Cons.prems(2) al el have r: "r = NextEndpoint" and intr: "Fetch ep a \<in> set tr'"
      by (auto split: loop_exit.splits)
    from Cons.prems(1) have "distinct eps" by simp
    from Cons.IH[OF this] intr el obtain pre where
      pre: "tr' = pre @ Fetch ep a # snd (endpointLoop net (tl (dropWhile (\<lambda>x. x \<noteq> ep) eps)))"
      "d = fst (endpointLoop net (tl (dropWhile (\<lambda>x. x \<noteq> ep) eps)))"
      "\<forall>a'. Fetch ep a' \<in> set pre \<longrightarrow> a' < a"
      by auto
    have "\<forall>a'. Fetch ep a' \<in> set (tr @ pre) \<longrightarrow> a' < a"
      using pre(3) attemptLoop_fetches[of ep _ net e 0] al False by auto
    with pre(1,2) al el r False show ?thesis
      by (intro exI[of _ "tr @ pre"]) simp
  qed
qed

lemma endpointLoop_no_retry:
  assumes "distinct eps"
    and "Fetch ep a \<in> set (snd (endpointLoop net eps))"
    and "net ep a = Response status body" and "500 \<le> status"
    and "a < a'"
  shows "Fetch ep a' \<notin> set (snd (endpointLoop net eps))"
proof -
  from endpointLoop_server_error[OF assms(1-4)] obtain pre where
    tr: "snd (endpointLoop net eps) =
             pre @ Fetch ep a # snd (endpointLoop net (tl (dropWhile (\<lambda>x. x \<noteq> ep) eps)))"
    and p: "\<forall>a'. Fetch ep a' \<in> set pre \<longrightarrow> a' < a"
    by blast
  have "ep \<notin> set (tl (dropWhile (\<lambda>x. x \<noteq> ep) eps))"
    using assms(1)
  proof (induction eps)
    case Nil
    then show ?case by simp
  next
    case (Cons e eps)
    then show ?case by auto
  qed
  then have "Fetch ep a' \<notin> set (snd (endpointLoop net (tl (dropWhile (\<lambda>x. x \<noteq> ep) eps))))"
    using endpointLoop_fetches by blast
  with tr p assms(5) show ?thesis by auto
qed

lemma attemptLoop_ext_fetches:
  "Fetch ep a \<in> set (snd (attemptLoop_ext net endpoint attempt)) \<Longrightarrow>
     ep = endpoint \<and> attempt \<le> a \<and> a < MAX_RETRIES"
proof (induction net endpoint attempt rule: attemptLoop_ext.induct)
  case (1 net endpoint attempt)
  show ?case
  proof (cases "attempt < MAX_RETRIES")
    case False
    with "1.prems" show ?thesis by (subst (asm) attemptLoop_ext.simps) simp
  next
    case True
    show ?thesis
    proof (cases "net endpoint attempt")
      case (Response status body)
      with True "1.prems" "1.IH"(1,2,3) show ?thesis
        by (subst (asm) attemptLoop_ext.simps)
          (auto simp: emit_def split: if_splits json_body.splits)
    next
      case (Throws e)
      with True "1.prems" "1.IH"(4) show ?thesis
        by (subst (asm) attemptLoop_ext.simps) (auto simp: emit_def split: if_splits)
    qed
  qed
qed

lemma attemptLoop_ext_server_error:
  "Fetch endpoint a \<in> set (snd (attemptLoop_ext net endpoint attempt)) \<Longrightarrow>
   net endpoint a = Response status body \<Longrightarrow> status = 503 \<or> status = 504 \<Longrightarrow>
     \<exists>pre. attemptLoop_ext net endpoint attempt = (NextEndpoint, pre @ [Fetch endpoint a]) \<and>
           (\<forall>ep' a'. Fetch ep' a' \<in> set pre \<longrightarrow> a' < a)"
proof (induction net endpoint attempt rule: attemptLoop_ext.induct)
  case (1 net endpoint attempt)
  from attemptLoop_ext_fetches[OF "1.prems"(1)] have range: "attempt \<le> a" "a < MAX_RETRIES" by auto
  then have lt: "attempt < MAX_RETRIES" by simp
  show ?case
  proof (cases "a = attempt")
    case True
    with "1.prems" lt have "attemptLoop_ext net endpoint attempt = (NextEndpoint, [] @ [Fetch endpoint a])"
      by (subst attemptLoop_ext.simps) auto
    then show ?thesis by (intro exI[of _ "[]"]) simp
  next
    case False
    with range have gt: "attempt < a" by simp
    have step: "\<exists>evs. attemptLoop_ext net endpoint attempt = emit (Fetch endpoint attempt # evs) (attemptLoop_ext net endpoint (attempt + 1))
        \<and> Fetch endpoint a \<in> set (snd (attemptLoop_ext net endpoint (attempt + 1)))
        \<and> (\<forall>ep' a'. Fetch ep' a' \<in> set evs \<longrightarrow> False)
        \<and> (\<exists>pre. attemptLoop_ext net endpoint (attempt + 1) = (NextEndpoint, pre @ [Fetch endpoint a]) \<and>
           (\<forall>ep' a'. Fetch ep' a' \<in> set pre \<longrightarrow> a' < a))"
    proof (cases "net endpoint attempt")
      case (Response st b)
      with lt False "1.prems" "1.IH"(1,2,3) show ?thesis
        by (subst attemptLoop_ext.simps, subst (asm) attemptLoop_ext.simps)
          (auto simp: emit_def split: if_splits json_body.splits)
    next
      case (Throws e)
      with lt False "1.prems" "1.IH"(4) show ?thesis
        by (subst attemptLoop_ext.simps, subst (asm) attemptLoop_ext.simps)
          (auto simp: emit_def split: if_splits)
    qed
    then obtain evs pre where
      e: "attemptLoop_ext net endpoint attempt = emit (Fetch endpoint attempt # evs) (attemptLoop_ext net endpoint (attempt + 1))"
      and nofetch: "\<forall>ep' a'. Fetch ep' a' \<in> set evs \<longrightarrow> False"
      and r: "attemptLoop_ext net endpoint (attempt + 1) = (NextEndpoint, pre @ [Fetch endpoint a])"
      and p: "\<forall>ep' a'. Fetch ep' a' \<in> set pre \<longrightarrow> a' < a"
      by blast
    have "attemptLoop_ext net endpoint attempt = (NextEndpoint, (Fetch endpoint attempt # evs @ pre) @ [Fetch endpoint a])"
      using e r by (simp add: emit_def)
    moreover have "\<forall>ep' a'. Fetch ep' a' \<in> set (Fetch endpoint attempt # evs @ pre) \<longrightarrow> a' < a"
      using nofetch p gt by auto
    ultimately show ?thesis by blast
  qed
qed

lemma endpointLoop_ext_fetches:
  "Fetch ep a \<in> set (snd (endpointLoop_ext net eps)) \<Longrightarrow> ep \<in> set eps"
proof (induction eps)
  case Nil
  then show ?case by simp
next
  case (Cons e eps)
  obtain r tr where al: "attemptLoop_ext net e 0 = (r, tr)" by (cases "attemptLoop_ext net e 0")
  obtain d tr' where el: "endpointLoop_ext net eps = (d, tr')" by (cases "endpointLoop_ext net eps")
  from Cons.prems al el have "Fetch ep a \<in> set tr \<or> Fetch ep a \<in> set tr'"
    by (auto split: loop_exit.splits)
  then show ?case
  proof
    assume "Fetch ep a \<in> set tr"
    with al have "Fetch ep a \<in> set (snd (attemptLoop_ext net e 0))" by simp
    from attemptLoop_ext_fetches[OF this] show ?thesis by simp
  next
    assume "Fetch ep a \<in> set tr'"
    with el Cons.IH show ?thesis by simp
  qed
qed

lemma endpointLoop_ext_server_error:
  assumes "distinct eps"
    and "Fetch ep a \<in> set (snd (endpointLoop_ext net eps))"
    and "net ep a = Response status body" and "status = 503 \<or> status = 504"
  shows "\<exists>pre. snd (endpointLoop_ext net eps) =
             pre @ Fetch ep a # snd (endpointLoop_ext net (tl (dropWhile (\<lambda>x. x \<noteq> ep) eps))) \<and>
           fst (endpointLoop_ext net eps) = fst (endpointLoop_ext net (tl (dropWhile (\<lambda>x. x \<noteq> ep) eps))) \<and>
           (\<forall>a'. Fetch ep a' \<in> set pre \<longrightarrow> a' < a)"
  using assms(1,2)
proof (induction eps)
  case Nil
  then show ?case by simp
next
  case (Cons e eps)
  obtain r tr where al: "attemptLoop_ext net e 0 = (r, tr)" by (cases "attemptLoop_ext net e 0")
  obtain d tr' where el: "endpointLoop_ext net eps = (d, tr')" by (cases "endpointLoop_ext net eps")
  show ?case
  proof (cases "ep = e")
    case True
    have "Fetch ep a \<notin> set tr'"
      using endpointLoop_ext_fetches[of ep a net eps] el Cons.prems(1) True by auto
    with Cons.prems(2) al el have "Fetch e a \<in> set (snd (attemptLoop_ext net e 0))"
      using True by (auto split: loop_exit.splits)
    from attemptLoop_ext_server_error[OF this] assms(3,4) True obtain pre where
      pre: "attemptLoop_ext net e 0 = (NextEndpoint, pre @ [Fetch e a])"
      "\<forall>ep' a'. Fetch ep' a' \<in> set pre \<longrightarrow> a' < a"
      by blast
    with True el show ?thesis by (intro exI[of _ pre]) simp
  next
    case False
    have notin: "Fetch ep a \<notin> set tr"
      using attemptLoop_ext_fetches[of ep a net e 0] al False by auto
    with Cons.prems(2) al el have r: "r = NextEndpoint" and intr: "Fetch ep a \<in> set tr'"
      by (auto split: loop_exit.splits)
    from Cons.prems(1) have "distinct eps" by simp
    from Cons.IH[OF this] intr el obtain pre where
      pre: "tr' = pre @ Fetch ep a # snd (endpointLoop_ext net (tl (dropWhile (\<lambda>x. x \<noteq> ep) eps)))"
      "d = fst (endpointLoop_ext net (tl (dropWhile (\<lambda>x. x \<noteq> ep) eps)))"
      "\<forall>a'. Fetch ep a' \<in> set pre \<longrightarrow> a' < a"
      by auto
    have "\<forall>a'. Fetch ep a' \<in> set (tr @ pre) \<longrightarrow> a' < a"
      using pre(3) attemptLoop_ext_fetches[of ep _ net e 0] al False by auto
    with pre(1,2) al el r False show ?thesis
      by (intro exI[of _ "tr @ pre"]) simp
  qed
qed

lemma endpointLoop_ext_no_retry:
  assumes "distinct eps"
    and "Fetch ep a \<in> set (snd (endpointLoop_ext net eps))"
    and "net ep a = Response status body" and "status = 503 \<or> status = 504"
    and "a < a'"
  shows "Fetch ep a' \<notin> set (snd (endpointLoop_ext net eps))"
proof -
  from endpointLoop_ext_server_error[OF assms(1-4)] obtain pre where
    tr: "snd (endpointLoop_ext net eps) =
             pre @ Fetch ep a # snd (endpointLoop_ext net (tl (dropWhile (\<lambda>x. x \<noteq> ep) eps)))"
    and p: "\<forall>a'. Fetch ep a' \<in> set pre \<longrightarrow> a' < a"
    by blast
  have "ep \<notin> set (tl (dropWhile (\<lambda>x. x \<noteq> ep) eps))"
    using assms(1)
  proof (induction eps)
    case Nil
    then show ?case by simp
  next
    case (Cons e eps)
    then show ?case by auto
  qed
  then have "Fetch ep a' \<notin> set (snd (endpointLoop_ext net (tl (dropWhile (\<lambda>x. x \<noteq> ep) eps))))"
    using endpointLoop_ext_fetches by blast
  with tr p assms(5) show ?thesis by auto
qed

lemma distinct_endpoints: "distinct OVERPASS_ENDPOINTS"
  by (simp add: OVERPASS_ENDPOINTS_def)

lemma net503_runs:
  "queryOverpass net503 =
     (None, [Fetch ''https://overpass-api.de/api/interpreter'' 0,
             Fetch ''https://overpass.kumi.systems/api/interpreter'' 0])"
  "queryOverpass_ext net503 =
     (None, [Fetch ''https://overpass-api.de/api/interpreter'' 0,
             Fetch ''https://overpass.kumi.systems/api/interpreter'' 0])"
  by (simp_all add: queryOverpass_def queryOverpass_ext_def OVERPASS_ENDPOINTS_def
      attemptLoop.simps attemptLoop_ext.simps net503_def MAX_RETRIES_def ok_def emit_def)

text \<open>
  C4. In part_000 a response with a status of 500 or more ends the work
  on its endpoint: no later attempt is made there, and the run continues exactly as
  a run over the endpoints that follow. In extract.js this holds for the statuses 503
  and 504 only.
\<close>

theorem server_error_leaves_endpoint:
  "(Fetch ep a \<in> set (snd (queryOverpass net)) \<and> net ep a = Response status body \<and> 500 \<le> status \<longrightarrow>
      (\<forall>a'>a. Fetch ep a' \<notin> set (snd (queryOverpass net))) \<and>
      (\<exists>pre. snd (queryOverpass net) =
           pre @ Fetch ep a # snd (endpointLoop net (tl (dropWhile (\<lambda>x. x \<noteq> ep) OVERPASS_ENDPOINTS))) \<and>
         fst (queryOverpass net) =
           fst (endpointLoop net (tl (dropWhile (\<lambda>x. x \<noteq> ep) OVERPASS_ENDPOINTS))))) \<and>
   (Fetch ep a \<in> set (snd (queryOverpass_ext net)) \<and> net ep a = Response status body \<and>
      (status = 503 \<or> status = 504) \<longrightarrow>
      (\<forall>a'>a. Fetch ep a' \<notin> set (snd (queryOverpass_ext net))) \<and>
      (\<exists>pre. snd (queryOverpass_ext net) =
           pre @ Fetch ep a # snd (endpointLoop_ext net (tl (dropWhile (\<lambda>x. x \<noteq> ep) OVERPASS_ENDPOINTS))) \<and>
         fst (queryOverpass_ext net) =
           fst (endpointLoop_ext net (tl (dropWhile (\<lambda>x. x \<noteq> ep) OVERPASS_ENDPOINTS)))))"
proof (intro conjI impI)
  assume h: "Fetch ep a \<in> set (snd (queryOverpass net)) \<and> net ep a = Response status body \<and> 500 \<le> status"
  then have f: "Fetch ep a \<in> set (snd (endpointLoop net OVERPASS_ENDPOINTS))"
    and r: "net ep a = Response status body" and s: "500 \<le> status"
    by (simp_all add: queryOverpass_def)
  show "\<forall>a'>a. Fetch ep a' \<notin> set (snd (queryOverpass net))"
    using endpointLoop_no_retry[OF distinct_endpoints f r s] by (simp add: queryOverpass_def)
  show "\<exists>pre. snd (queryOverpass net) =
           pre @ Fetch ep a # snd (endpointLoop net (tl (dropWhile (\<lambda>x. x \<noteq> ep) OVERPASS_ENDPOINTS))) \<and>
         fst (queryOverpass net) =
           fst (endpointLoop net (tl (dropWhile (\<lambda>x. x \<noteq> ep) OVERPASS_ENDPOINTS)))"
    using endpointLoop_server_error[OF distinct_endpoints f r s] unfolding queryOverpass_def
    by blast
next
  assume h: "Fetch ep a \<in> set (snd (queryOverpass_ext net)) \<and> net ep a = Response status body \<and>
      (status = 503 \<or> status = 504)"
  then have f: "Fetch ep a \<in> set (snd (endpointLoop_ext net OVERPASS_ENDPOINTS))"
    and r: "net ep a = Response status body" and s: "status = 503 \<or> status = 504"
    by (simp_all add: queryOverpass_ext_def)
  show "\<forall>a'>a. Fetch ep a' \<notin> set (snd (queryOverpass_ext net))"
    using endpointLoop_ext_no_retry[OF distinct_endpoints f r s] by (simp add: queryOverpass_ext_def)
  show "\<exists>pre. snd (queryOverpass_ext net) =
           pre @ Fetch ep a # snd (endpointLoop_ext net (tl (dropWhile (\<lambda>x. x \<noteq> ep) OVERPASS_ENDPOINTS))) \<and>
         fst (queryOverpass_ext net) =
           fst (endpointLoop_ext net (tl (dropWhile (\<lambda>x. x \<noteq> ep) OVERPASS_ENDPOINTS)))"
    using endpointLoop_ext_server_error[OF distinct_endpoints f r s] unfolding queryOverpass_ext_def
    by blast
qed



theorem server_error_leaves_endpoint_witness:
  "Fetch ''https://overpass-api.de/api/interpreter'' 0 \<in> set (snd (queryOverpass net503)) \<and>
   Fetch ''https://overpass-api.de/api/interpreter'' 0 \<in> set (snd (queryOverpass_ext net503)) \<and>
   net503 ''https://overpass-api.de/api/interpreter'' 0 = Response 503 BadJson \<and>
   Fetch ''https://overpass-api.de/api/interpreter'' 1 \<notin> set (snd (queryOverpass net503)) \<and>
   Fetch ''https://overpass-api.de/api/interpreter'' 1 \<notin> set (snd (queryOverpass_ext net503))"
proof -
  let ?P = "''https://overpass-api.de/api/interpreter''"
  have f: "Fetch ?P 0 \<in> set (snd (queryOverpass net503))"
    and fx: "Fetch ?P 0 \<in> set (snd (queryOverpass_ext net503))"
    by (simp_all add: net503_runs)
  have r: "net503 ?P 0 = Response 503 BadJson"
    by (simp add: net503_def)
  note inst = server_error_leaves_endpoint[of ?P 0 net503 503 BadJson]
  have c: "Fetch ?P 0 \<in> set (snd (queryOverpass net503)) \<and> net503 ?P 0 = Response 503 BadJson \<and>
      (500::nat) \<le> 503"
    using f r by simp
  have "\<forall>a'>0. Fetch ?P a' \<notin> set (snd (queryOverpass net503))"
    using inst[THEN conjunct1, THEN mp, OF c] by (rule conjunct1)
  then have n: "Fetch ?P 1 \<notin> set (snd (queryOverpass net503))" by simp
  have cx: "Fetch ?P 0 \<in> set (snd (queryOverpass_ext net503)) \<and> net503 ?P 0 = Response 503 BadJson \<and>
      ((503::nat) = 503 \<or> (503::nat) = 504)"
    using fx r by simp
  have "\<forall>a'>0. Fetch ?P a' \<notin> set (snd (queryOverpass_ext net503))"
    using inst[THEN conjunct2, THEN mp, OF cx] by (rule conjunct1)
  then have nx: "Fetch ?P 1 \<notin> set (snd (queryOverpass_ext net503))" by simp
  show ?thesis
    by (intro conjI) (rule f fx r n nx)+
qed

text \<open>In extract.js a status 500 on the first attempt is followed by a second attempt on
  the same endpoint.\<close>

theorem ext_retries_after_500:
  "net500 ''https://overpass-api.de/api/interpreter'' 0 = Response 500 BadJson \<and>
   queryOverpass_ext net500 =
     (Some \<lparr>elements = Some []\<rparr>,
      [Fetch ''https://overpass-api.de/api/interpreter'' 0,
       Fetch ''https://overpass-api.de/api/interpreter'' 1])"
  by (simp add: queryOverpass_ext_def OVERPASS_ENDPOINTS_def
      attemptLoop_ext.simps net500_def MAX_RETRIES_def ok_def emit_def)

subsection \<open>Railway collector\<close>

lemma elementLoop_append:
  "elementLoop (xs @ ys) st = elementLoop ys (elementLoop xs st)"
  by (induction xs st rule: elementLoop.induct) (auto split: option.splits)

lemma tileLoop_from:
  "tileLoop query tiles i st =
     elementLoop (concat (map (\<lambda>j. tileElements (query j (tiles ! j))) [i..<length tiles])) st"
proof (induction query tiles i st rule: tileLoop.induct)
  case (1 query tiles i st)
  show ?case
  proof (cases "i < length tiles")
    case False
    then show ?thesis by (subst tileLoop.simps) simp
  next
    case True
    then have upt: "[i..<length tiles] = i # [i + 1..<length tiles]"
      by (simp add: upt_conv_Cons)
    show ?thesis
    proof (cases "query i (tiles ! i)")
      case None
      with True "1.IH"(1) show ?thesis
        by (subst tileLoop.simps) (simp add: upt tileElements_def)
    next
      case (Some data)
      show ?thesis
      proof (cases "elements data")
        case None
        with True Some "1.IH"(2) show ?thesis
          by (subst tileLoop.simps) (simp add: upt tileElements_def)
      next
        case (Some els)
        with True \<open>query i (tiles ! i) = Some data\<close> "1.IH"(3) show ?thesis
          by (subst tileLoop.simps) (simp add: upt tileElements_def elementLoop_append)
      qed
    qed
  qed
qed

lemma tileLoop_fetched:
  "tileLoop query tiles 0 st = elementLoop (fetched query tiles) st"
  by (simp add: tileLoop_from fetched_def)

text \<open>The invariant of the element loop.\<close>

lemma elementLoop_inv:
  assumes "distinct (map seg_id ways)" and "seg_id ` set ways \<subseteq> seen"
  shows "distinct (map seg_id (fst (elementLoop els (ways, seen)))) \<and>
         seg_id ` set (fst (elementLoop els (ways, seen))) \<subseteq> snd (elementLoop els (ways, seen)) \<and>
         seen \<union> el_id ` set els \<subseteq> snd (elementLoop els (ways, seen))"
  using assms
proof (induction els arbitrary: ways seen)
  case Nil
  then show ?case by simp
next
  case (Cons el els)
  show ?case
  proof (cases "el_id el \<in> seen")
    case True
    with Cons.IH[OF Cons.prems] show ?thesis by auto
  next
    case False
    show ?thesis
    proof (cases "validGeometry el")
      case no: False
      have "distinct (map seg_id ways)" "seg_id ` set ways \<subseteq> insert (el_id el) seen"
        using Cons.prems by auto
      from Cons.IH[OF this] False no show ?thesis
        by (auto simp: validGeometry_def split: option.splits)
    next
      case yes: True
      then obtain g where g: "el_geometry el = Some g" "2 \<le> length g"
        by (auto simp: validGeometry_def split: option.splits)
      have "distinct (map seg_id (ways @ [segmentOf el g]))"
        "seg_id ` set (ways @ [segmentOf el g]) \<subseteq> insert (el_id el) seen"
        using Cons.prems False by (auto simp: segmentOf_def)
      from Cons.IH[OF this] False g show ?thesis
        by auto
    qed
  qed
qed

lemma elementLoop_origin:
  assumes "\<forall>s\<in>set ways. P s"
    and "\<And>el g. el \<in> set els \<Longrightarrow> el_geometry el = Some g \<Longrightarrow> 2 \<le> length g \<Longrightarrow> P (segmentOf el g)"
  shows "\<forall>s\<in>set (fst (elementLoop els (ways, seen))). P s"
  using assms
proof (induction els arbitrary: ways seen)
  case Nil
  then show ?case by simp
next
  case (Cons el els)
  have rest: "\<And>el g. el \<in> set els \<Longrightarrow> el_geometry el = Some g \<Longrightarrow> 2 \<le> length g \<Longrightarrow> P (segmentOf el g)"
    using Cons.prems(2) by auto
  show ?case
  proof (cases "el_id el \<in> seen \<or> \<not> validGeometry el")
    case True
    with Cons.IH[OF Cons.prems(1) rest] show ?thesis
      by (auto simp: validGeometry_def split: option.splits)
  next
    case False
    then obtain g where g: "el_geometry el = Some g" "2 \<le> length g"
      by (auto simp: validGeometry_def split: option.splits)
    then have "P (segmentOf el g)" using Cons.prems(2) by auto
    with Cons.prems(1) have "\<forall>s\<in>set (ways @ [segmentOf el g]). P s" by auto
    from Cons.IH[OF this rest] False g show ?thesis by auto
  qed
qed

text \<open>An element with a usable geometry whose identifier is not yet seen gives a segment.\<close>

lemma elementLoop_keeps:
  "set ways \<subseteq> set (fst (elementLoop els (ways, seen)))"
proof (induction els arbitrary: ways seen)
  case Nil
  then show ?case by simp
next
  case (Cons el els)
  show ?case
    using Cons.IH[of ways seen] Cons.IH[of ways "insert (el_id el) seen"]
      Cons.IH[of "ways @ [segmentOf el (the (el_geometry el))]" "insert (el_id el) seen"]
    by (auto split: option.splits)
qed

lemma elementLoop_first_valid:
  assumes "el \<in> set els" and "el_id el \<notin> seen"
    and "\<forall>x\<in>set els. el_id x = el_id el \<longrightarrow> validGeometry x"
  shows "el_id el \<in> seg_id ` set (fst (elementLoop els (ways, seen)))"
  using assms
proof (induction els arbitrary: ways seen)
  case Nil
  then show ?case by simp
next
  case (Cons x xs)
  show ?case
  proof (cases "el_id x = el_id el")
    case True
    with Cons.prems obtain g where g: "el_geometry x = Some g" "2 \<le> length g"
      by (auto simp: validGeometry_def split: option.splits)
    have "segmentOf x g \<in> set (fst (elementLoop xs (ways @ [segmentOf x g], insert (el_id x) seen)))"
      using elementLoop_keeps[of "ways @ [segmentOf x g]" xs "insert (el_id x) seen"] by auto
    moreover have "seg_id (segmentOf x g) = el_id el" using True by (simp add: segmentOf_def)
    ultimately show ?thesis using True Cons.prems(2) g by force
  next
    case False
    with Cons.prems have in_xs: "el \<in> set xs" by auto
    have rest: "\<forall>y\<in>set xs. el_id y = el_id el \<longrightarrow> validGeometry y" using Cons.prems(3) by auto
    have ns: "el_id el \<notin> insert (el_id x) seen" using False Cons.prems(2) by auto
    from Cons.IH[OF in_xs Cons.prems(2) rest] Cons.IH[OF in_xs ns rest]
    show ?thesis by (auto split: option.splits)
  qed
qed

lemma count_one:
  assumes "distinct (map f xs)" and "k \<in> f ` set xs"
  shows "length (filter (\<lambda>x. f x = k) xs) = 1"
  using assms
proof (induction xs)
  case Nil
  then show ?case by simp
next
  case (Cons x xs)
  show ?case
  proof (cases "f x = k")
    case True
    with Cons.prems(1) have "k \<notin> f ` set xs" by simp
    then have "filter (\<lambda>x. f x = k) xs = []"
      by (auto simp: filter_empty_conv)
    with True show ?thesis by simp
  next
    case False
    with Cons show ?thesis by auto
  qed
qed

lemma tileLoop_unique:
  "distinct (map seg_id (fst (tileLoop query tiles 0 ([], {})))) \<and>
   (\<forall>el\<in>set (fetched query tiles).
      validGeometry el \<and> (\<forall>x\<in>set (fetched query tiles). el_id x = el_id el \<longrightarrow> validGeometry x) \<longrightarrow>
      length (filter (\<lambda>s. seg_id s = el_id el) (fst (tileLoop query tiles 0 ([], {})))) = 1)"
proof -
  let ?ways = "fst (elementLoop (fetched query tiles) ([], {}))"
  have d: "distinct (map seg_id ?ways)"
    using elementLoop_inv[of "[]" "{}" "fetched query tiles"] by simp
  have "\<forall>el\<in>set (fetched query tiles).
      validGeometry el \<and> (\<forall>x\<in>set (fetched query tiles). el_id x = el_id el \<longrightarrow> validGeometry x) \<longrightarrow>
      length (filter (\<lambda>s. seg_id s = el_id el) ?ways) = 1"
  proof (intro ballI impI)
    fix el
    assume el: "el \<in> set (fetched query tiles)"
      and v: "validGeometry el \<and> (\<forall>x\<in>set (fetched query tiles). el_id x = el_id el \<longrightarrow> validGeometry x)"
    have "el_id el \<in> seg_id ` set ?ways"
      using elementLoop_first_valid[OF el, of "{}" "[]"] v by simp
    from count_one[OF d this] show "length (filter (\<lambda>s. seg_id s = el_id el) ?ways) = 1" .
  qed
  with d show ?thesis by (simp add: tileLoop_fetched)
qed

lemma tileLoop_geometry:
  "\<forall>s\<in>set (fst (tileLoop query tiles 0 ([], {}))).
     2 \<le> length (seg_geometry s) \<and>
     (\<exists>el\<in>set (fetched query tiles). \<exists>g. el_geometry el = Some g \<and> 2 \<le> length g \<and> s = segmentOf el g)"
proof -
  have "\<forall>s\<in>set (fst (elementLoop (fetched query tiles) ([], {}))).
     2 \<le> length (seg_geometry s) \<and>
     (\<exists>el\<in>set (fetched query tiles). \<exists>g. el_geometry el = Some g \<and> 2 \<le> length g \<and> s = segmentOf el g)"
  proof (rule elementLoop_origin)
    show "\<forall>s\<in>set []. 2 \<le> length (seg_geometry s) \<and>
     (\<exists>el\<in>set (fetched query tiles). \<exists>g. el_geometry el = Some g \<and> 2 \<le> length g \<and> s = segmentOf el g)"
      by simp
  next
    fix el g
    assume "el \<in> set (fetched query tiles)" "el_geometry el = Some g" "2 \<le> length g"
    then show "2 \<le> length (seg_geometry (segmentOf el g)) \<and>
     (\<exists>el'\<in>set (fetched query tiles). \<exists>g'. el_geometry el' = Some g' \<and> 2 \<le> length g' \<and>
        segmentOf el g = segmentOf el' g')"
      by (auto simp: segmentOf_def)
  qed
  then show ?thesis by (simp add: tileLoop_fetched)
qed

text \<open>The stored coordinate is rounded twice: at the double 22.542575, whose product
  with 100000 rounds to 2254257.5, the result is the double 22.54258.\<close>

lemma round5_rounds_the_product:
  "round5 (fl (22542575 / 1000000)) = fl (2254258 / 100000)"
  "fl (fl (22542575 / 1000000) * 100000) = 4508515 / 2"
  "fl (22542575 / 1000000) * 100000 < 4508515 / 2"
  by (simp_all add: round5_def fl_def expo_def roundEven_def compute_bitlen)

lemma queryOverpass_sampleNet:
  "fst (queryOverpass sampleNet) = Some \<lparr>elements = Some [shortWay, sampleWay]\<rparr>"
  "fst (queryOverpass_ext sampleNet) = Some \<lparr>elements = Some [shortWay, sampleWay]\<rparr>"
  by (simp_all add: queryOverpass_def queryOverpass_ext_def OVERPASS_ENDPOINTS_def
      attemptLoop.simps attemptLoop_ext.simps sampleNet_def MAX_RETRIES_def ok_def)

lemma queryOverpass_deadNet:
  "fst (queryOverpass deadNet) = None"
  "fst (queryOverpass_ext deadNet) = None"
  by (simp_all add: queryOverpass_def queryOverpass_ext_def OVERPASS_ENDPOINTS_def
      attemptLoop.simps attemptLoop_ext.simps deadNet_def MAX_RETRIES_def ok_def emit_def)

lemma turkey_box:
  "c_bbox turkey =
     (629976182250537 / 17592186044416, 7222647902395433 / 281474976710656,
      2963227817321431 / 70368744177664, 6307854228085801 / 140737488355328)"
  by (simp add: turkey_def fl_def expo_def roundEven_def compute_bitlen)

lemma turkey_bounded: "boundedBox (c_bbox turkey)"
  by (simp add: turkey_box boundedBox_def south_def west_def north_def east_def)

lemma turkey_size: "TILE_SIZES (getCountrySize ''turkey'') = 8"
  by (simp add: getCountrySize_def truthyProperty_def inheritedKeys_def COUNTRIES_SMALL_def
      COUNTRIES_MEDIUM_def)

lemma turkey_tiles:
  "getTiles (c_bbox turkey) (TILE_SIZES (getCountrySize ''turkey'')) =
     Some [(629976182250537 / 17592186044416, 7222647902395433 / 281474976710656,
            2963227817321431 / 70368744177664, 1184305964510085 / 35184372088832),
           (629976182250537 / 17592186044416, 1184305964510085 / 35184372088832,
            2963227817321431 / 70368744177664, 1465780941220741 / 35184372088832),
           (629976182250537 / 17592186044416, 1465780941220741 / 35184372088832,
            2963227817321431 / 70368744177664, 6307854228085801 / 140737488355328)]"
  "getTiles_ext (c_bbox turkey) =
     Some [(629976182250537 / 17592186044416, 7222647902395433 / 281474976710656,
            2963227817321431 / 70368744177664, 1254674708687749 / 35184372088832),
           (629976182250537 / 17592186044416, 1254674708687749 / 35184372088832,
            2963227817321431 / 70368744177664, 6307854228085801 / 140737488355328)]"
  unfolding turkey_size turkey_box
  by (simp_all add: getTiles_def getTiles_ext_def TILE_THRESHOLD_DEG_def TILE_SIZE_DEG_def
      latLoop.simps lonLoop.simps fl_def expo_def roundEven_def compute_bitlen)

lemma sample_fetched:
  "fetched (\<lambda>i t. fst (queryOverpass (sampleWorld i t))) [t0, t1, t2] =
     [shortWay, sampleWay, shortWay, sampleWay]"
  "fetched (\<lambda>i t. fst (queryOverpass_ext (sampleWorld i t))) [t0, t1] = [shortWay, sampleWay]"
  by (simp_all add: fetched_def sampleWorld_def queryOverpass_sampleNet queryOverpass_deadNet
      tileElements_def upt_rec)

lemma sample_railways:
  "extractRailways sampleWorld ''turkey'' turkey =
     Some [segmentOf sampleWay [(fl (1123456789 / 1000000000), 2), (3, fl (4000004 / 1000000))]]"
  "extractRailways_ext sampleWorld ''turkey'' turkey =
     Some [segmentOf sampleWay [(fl (1123456789 / 1000000000), 2), (3, fl (4000004 / 1000000))]]"
  by (simp_all add: extractRailways_def extractRailways_ext_def turkey_tiles tileLoop_fetched
      sample_fetched)
    (simp_all add: sampleWay_def shortWay_def)



text \<open>
  C2. For a country whose box has coordinates below \<open>2 ^ 52\<close> in magnitude, as every
  box of latitudes and longitudes has, the collector returns, and no two of its
  segments share an identifier. An
  element with a usable geometry, all of whose occurrences among the fetched elements
  (in the same tile or in different ones) have a usable geometry, gives exactly one
  segment with its identifier, however often it occurs.
\<close>

theorem railway_ids_unique:
  assumes "boundedBox (c_bbox country)"
  shows "(\<exists>tiles ways.
      getTiles (c_bbox country) (TILE_SIZES (getCountrySize key)) = Some tiles \<and>
      extractRailways world key country = Some ways \<and>
      distinct (map seg_id ways) \<and>
      (\<forall>el\<in>set (fetched (\<lambda>i t. fst (queryOverpass (world i t))) tiles).
         validGeometry el \<and>
         (\<forall>x\<in>set (fetched (\<lambda>i t. fst (queryOverpass (world i t))) tiles).
            el_id x = el_id el \<longrightarrow> validGeometry x) \<longrightarrow>
         length (filter (\<lambda>s. seg_id s = el_id el) ways) = 1)) \<and>
   (\<exists>tiles ways.
      getTiles_ext (c_bbox country) = Some tiles \<and>
      extractRailways_ext world key country = Some ways \<and>
      distinct (map seg_id ways) \<and>
      (\<forall>el\<in>set (fetched (\<lambda>i t. fst (queryOverpass_ext (world i t))) tiles).
         validGeometry el \<and>
         (\<forall>x\<in>set (fetched (\<lambda>i t. fst (queryOverpass_ext (world i t))) tiles).
            el_id x = el_id el \<longrightarrow> validGeometry x) \<longrightarrow>
         length (filter (\<lambda>s. seg_id s = el_id el) ways) = 1))"
proof
  obtain tiles where t: "getTiles (c_bbox country) (TILE_SIZES (getCountrySize key)) = Some tiles"
    using getTiles_total[OF assms] by blast
  then have "extractRailways world key country =
      Some (fst (tileLoop (\<lambda>i t. fst (queryOverpass (world i t))) tiles 0 ([], {})))"
    by (simp add: extractRailways_def)
  with t tileLoop_unique[of "\<lambda>i t. fst (queryOverpass (world i t))" tiles]
  show "\<exists>tiles ways.
      getTiles (c_bbox country) (TILE_SIZES (getCountrySize key)) = Some tiles \<and>
      extractRailways world key country = Some ways \<and>
      distinct (map seg_id ways) \<and>
      (\<forall>el\<in>set (fetched (\<lambda>i t. fst (queryOverpass (world i t))) tiles).
         validGeometry el \<and>
         (\<forall>x\<in>set (fetched (\<lambda>i t. fst (queryOverpass (world i t))) tiles).
            el_id x = el_id el \<longrightarrow> validGeometry x) \<longrightarrow>
         length (filter (\<lambda>s. seg_id s = el_id el) ways) = 1)"
    by blast
next
  obtain tiles where t: "getTiles_ext (c_bbox country) = Some tiles"
    using getTiles_ext_total[OF assms] by blast
  then have "extractRailways_ext world key country =
      Some (fst (tileLoop (\<lambda>i t. fst (queryOverpass_ext (world i t))) tiles 0 ([], {})))"
    by (simp add: extractRailways_ext_def)
  with t tileLoop_unique[of "\<lambda>i t. fst (queryOverpass_ext (world i t))" tiles]
  show "\<exists>tiles ways.
      getTiles_ext (c_bbox country) = Some tiles \<and>
      extractRailways_ext world key country = Some ways \<and>
      distinct (map seg_id ways) \<and>
      (\<forall>el\<in>set (fetched (\<lambda>i t. fst (queryOverpass_ext (world i t))) tiles).
         validGeometry el \<and>
         (\<forall>x\<in>set (fetched (\<lambda>i t. fst (queryOverpass_ext (world i t))) tiles).
            el_id x = el_id el \<longrightarrow> validGeometry x) \<longrightarrow>
         length (filter (\<lambda>s. seg_id s = el_id el) ways) = 1)"
    by blast
qed

theorem railway_ids_unique_witness:
  "boundedBox (c_bbox turkey) \<and>
   (\<exists>ways. extractRailways sampleWorld ''turkey'' turkey = Some ways \<and>
      distinct (map seg_id ways) \<and>
      length (filter (\<lambda>x. x = sampleWay)
        (fetched (\<lambda>i t. fst (queryOverpass (sampleWorld i t)))
           (the (getTiles (c_bbox turkey) (TILE_SIZES (getCountrySize ''turkey'')))))) = 2 \<and>
      validGeometry sampleWay \<and>
      length (filter (\<lambda>s. seg_id s = el_id sampleWay) ways) = 1) \<and>
   (\<exists>ways. extractRailways_ext sampleWorld ''turkey'' turkey = Some ways \<and>
      distinct (map seg_id ways) \<and>
      sampleWay \<in> set (fetched (\<lambda>i t. fst (queryOverpass_ext (sampleWorld i t)))
           (the (getTiles_ext (c_bbox turkey)))) \<and>
      length (filter (\<lambda>s. seg_id s = el_id sampleWay) ways) = 1)"
proof -
  have v: "validGeometry sampleWay" "\<not> validGeometry shortWay" "el_id shortWay \<noteq> el_id sampleWay"
    "shortWay \<noteq> sampleWay"
    by (simp_all add: validGeometry_def sampleWay_def shortWay_def)
  from railway_ids_unique[OF turkey_bounded, of "''turkey''" sampleWorld]
  show ?thesis
    unfolding turkey_tiles using v turkey_bounded by (auto simp: sample_fetched)
qed

text \<open>
  C9. For a country whose box has coordinates below \<open>2 ^ 52\<close> in magnitude, the
  collector returns; every segment of its result has at least two geometry points, and
  is the segment of a fetched element whose geometry is present with at least two
  points; an element without geometry or with fewer than two points gives none.
\<close>

theorem segments_have_two_points:
  assumes "boundedBox (c_bbox country)"
  shows "(\<exists>tiles ways.
      getTiles (c_bbox country) (TILE_SIZES (getCountrySize key)) = Some tiles \<and>
      extractRailways world key country = Some ways \<and>
      (\<forall>s\<in>set ways. 2 \<le> length (seg_geometry s) \<and>
         (\<exists>el\<in>set (fetched (\<lambda>i t. fst (queryOverpass (world i t))) tiles).
            \<exists>g. el_geometry el = Some g \<and> 2 \<le> length g \<and> s = segmentOf el g))) \<and>
   (\<exists>tiles ways.
      getTiles_ext (c_bbox country) = Some tiles \<and>
      extractRailways_ext world key country = Some ways \<and>
      (\<forall>s\<in>set ways. 2 \<le> length (seg_geometry s) \<and>
         (\<exists>el\<in>set (fetched (\<lambda>i t. fst (queryOverpass_ext (world i t))) tiles).
            \<exists>g. el_geometry el = Some g \<and> 2 \<le> length g \<and> s = segmentOf el g)))"
proof
  obtain tiles where t: "getTiles (c_bbox country) (TILE_SIZES (getCountrySize key)) = Some tiles"
    using getTiles_total[OF assms] by blast
  then have "extractRailways world key country =
      Some (fst (tileLoop (\<lambda>i t. fst (queryOverpass (world i t))) tiles 0 ([], {})))"
    by (simp add: extractRailways_def)
  with t tileLoop_geometry[of "\<lambda>i t. fst (queryOverpass (world i t))" tiles]
  show "\<exists>tiles ways.
      getTiles (c_bbox country) (TILE_SIZES (getCountrySize key)) = Some tiles \<and>
      extractRailways world key country = Some ways \<and>
      (\<forall>s\<in>set ways. 2 \<le> length (seg_geometry s) \<and>
         (\<exists>el\<in>set (fetched (\<lambda>i t. fst (queryOverpass (world i t))) tiles).
            \<exists>g. el_geometry el = Some g \<and> 2 \<le> length g \<and> s = segmentOf el g))"
    by blast
next
  obtain tiles where t: "getTiles_ext (c_bbox country) = Some tiles"
    using getTiles_ext_total[OF assms] by blast
  then have "extractRailways_ext world key country =
      Some (fst (tileLoop (\<lambda>i t. fst (queryOverpass_ext (world i t))) tiles 0 ([], {})))"
    by (simp add: extractRailways_ext_def)
  with t tileLoop_geometry[of "\<lambda>i t. fst (queryOverpass_ext (world i t))" tiles]
  show "\<exists>tiles ways.
      getTiles_ext (c_bbox country) = Some tiles \<and>
      extractRailways_ext world key country = Some ways \<and>
      (\<forall>s\<in>set ways. 2 \<le> length (seg_geometry s) \<and>
         (\<exists>el\<in>set (fetched (\<lambda>i t. fst (queryOverpass_ext (world i t))) tiles).
            \<exists>g. el_geometry el = Some g \<and> 2 \<le> length g \<and> s = segmentOf el g))"
    by blast
qed

theorem segments_have_two_points_witness:
  "boundedBox (c_bbox turkey) \<and>
   (\<exists>ways. extractRailways sampleWorld ''turkey'' turkey = Some ways \<and> ways \<noteq> [] \<and>
      (\<forall>s\<in>set ways. 2 \<le> length (seg_geometry s) \<and> seg_id s \<noteq> el_id shortWay)) \<and>
   (\<exists>ways. extractRailways_ext sampleWorld ''turkey'' turkey = Some ways \<and> ways \<noteq> [] \<and>
      (\<forall>s\<in>set ways. 2 \<le> length (seg_geometry s) \<and> seg_id s \<noteq> el_id shortWay))"
proof -
  have "el_id shortWay \<noteq> el_id sampleWay" by (simp add: sampleWay_def shortWay_def)
  with segments_have_two_points[OF turkey_bounded, of "''turkey''" sampleWorld]
  show ?thesis
    unfolding sample_railways using turkey_bounded by (auto simp: segmentOf_def)
qed



subsection \<open>Station collector\<close>

text \<open>The loop bodies in terms of what an element contributes.\<close>

lemma stationStep_candidate:
  "stationStep el m =
     (case candidate el of
        None \<Rightarrow> m
      | Some (k, st) \<Rightarrow> if \<not> has m k then AList.update k st m else m)"
  by (simp add: stationStep_def candidate_def hasCoords_def Let_def)

lemma stationStep_ext_candidate:
  "stationStep_ext towns el m =
     (case candidate_ext towns el of
        None \<Rightarrow> m
      | Some (k, st) \<Rightarrow>
          if \<not> has m k \<or> matchesStation (toLowerCase (sx_name st)) then AList.update k st m
          else m)"
  by (simp add: stationStep_ext_def candidate_ext_def hasCoords_def Let_def stationOf_ext_def
      split: option.splits)

lemma stationLoop_snoc: "stationLoop (els @ [el]) m = stationStep el (stationLoop els m)"
  by (induction els arbitrary: m) simp_all

lemma stationLoop_ext_snoc:
  "stationLoop_ext towns (els @ [el]) m = stationStep_ext towns el (stationLoop_ext towns els m)"
  by (induction els arbitrary: m) simp_all

lemma candidates_snoc:
  "candidates (els @ [el]) = candidates els @ (case candidate el of None \<Rightarrow> [] | Some c \<Rightarrow> [c])"
  by (simp add: candidates_def List.map_filter_def split: option.splits)

lemma candidates_ext_snoc:
  "candidates_ext towns (els @ [el]) =
     candidates_ext towns els @ (case candidate_ext towns el of None \<Rightarrow> [] | Some c \<Rightarrow> [c])"
  by (simp add: candidates_ext_def List.map_filter_def split: option.splits)

lemma winner_None: "winner cs = None \<longleftrightarrow> cs = []"
  by (simp add: winner_def split: list.splits)

lemma winner_ext_None: "winner_ext cs = None \<longleftrightarrow> cs = []"
  by (auto simp: winner_ext_def split: list.splits)

lemma winner_snoc: "winner (cs @ [c]) = (if cs = [] then Some c else winner cs)"
  by (cases cs) (simp_all add: winner_def)

lemma winner_ext_snoc:
  "winner_ext (cs @ [c]) =
     (if cs = [] \<or> matchesStation (toLowerCase (sx_name c)) then Some c else winner_ext cs)"
proof (cases "matchesStation (toLowerCase (sx_name c))")
  case True
  let ?P = "\<lambda>c. matchesStation (toLowerCase (sx_name c))"
  obtain y ys where e: "filter ?P (cs @ [c]) = y # ys"
    using True by (cases "filter ?P cs") auto
  have "last (y # ys) = last (filter ?P (cs @ [c]))" by (simp only: e)
  also have "\<dots> = c" using True by simp
  finally have l: "last (y # ys) = c" .
  have "winner_ext (cs @ [c]) = Some (last (y # ys))"
    unfolding winner_ext_def e by (simp del: last.simps)
  then have "winner_ext (cs @ [c]) = Some c" by (simp only: l)
  with True show ?thesis by simp
next
  case False
  then show ?thesis
    by (cases cs) (simp_all add: winner_ext_def split: list.splits)
qed

text \<open>Which station each key holds after the loop.\<close>

lemma stationLoop_map_of:
  "map_of (stationLoop els []) k = winner (bucket k (candidates els))"
proof (induction els arbitrary: k rule: rev_induct)
  case Nil
  then show ?case by (simp add: candidates_def bucket_def winner_def List.map_filter_def)
next
  case (snoc el els)
  let ?m = "stationLoop els []"
  show ?case
  proof (cases "candidate el")
    case None
    with snoc show ?thesis
      by (simp add: stationLoop_snoc stationStep_candidate candidates_snoc)
  next
    case (Some c)
    obtain k' st where c: "c = (k', st)" by (cases c)
    have hasm: "has ?m k' \<longleftrightarrow> bucket k' (candidates els) \<noteq> []"
      using snoc.IH[of k'] by (simp add: has_def winner_None)
    show ?thesis
    proof (cases "k' = k")
      case True
      with Some c snoc.IH[of k] hasm show ?thesis
        by (simp add: stationLoop_snoc stationStep_candidate candidates_snoc bucket_def
            update_conv' winner_snoc)
    next
      case False
      with Some c snoc.IH[of k] show ?thesis
        by (simp add: stationLoop_snoc stationStep_candidate candidates_snoc bucket_def
            update_conv')
    qed
  qed
qed

lemma stationLoop_ext_map_of:
  "map_of (stationLoop_ext towns els []) k = winner_ext (bucket k (candidates_ext towns els))"
proof (induction els arbitrary: k rule: rev_induct)
  case Nil
  then show ?case by (simp add: candidates_ext_def bucket_def winner_ext_def List.map_filter_def)
next
  case (snoc el els)
  let ?m = "stationLoop_ext towns els []"
  show ?case
  proof (cases "candidate_ext towns el")
    case None
    with snoc show ?thesis
      by (simp add: stationLoop_ext_snoc stationStep_ext_candidate candidates_ext_snoc)
  next
    case (Some c)
    obtain k' st where c: "c = (k', st)" by (cases c)
    have hasm: "has ?m k' \<longleftrightarrow> bucket k' (candidates_ext towns els) \<noteq> []"
      using snoc.IH[of k'] by (simp add: has_def winner_ext_None)
    show ?thesis
    proof (cases "k' = k")
      case True
      with Some c snoc.IH[of k] hasm show ?thesis
        by (simp add: stationLoop_ext_snoc stationStep_ext_candidate candidates_ext_snoc bucket_def
            update_conv' winner_ext_snoc)
    next
      case False
      with Some c snoc.IH[of k] show ?thesis
        by (simp add: stationLoop_ext_snoc stationStep_ext_candidate candidates_ext_snoc bucket_def
            update_conv')
    qed
  qed
qed

text \<open>The keys of the map are distinct, and are the keys of the candidates.\<close>

lemma stationLoop_distinct:
  "distinct (map fst m) \<Longrightarrow> distinct (map fst (stationLoop els m))"
proof (induction els arbitrary: m)
  case Nil
  then show ?case by simp
next
  case (Cons el els)
  have "distinct (map fst (stationStep el m))"
    using Cons.prems by (simp add: stationStep_candidate distinct_update split: option.splits)
  then show ?case using Cons.IH by simp
qed

lemma stationLoop_ext_distinct:
  "distinct (map fst m) \<Longrightarrow> distinct (map fst (stationLoop_ext towns els m))"
proof (induction els arbitrary: m)
  case Nil
  then show ?case by simp
next
  case (Cons el els)
  have "distinct (map fst (stationStep_ext towns el m))"
    using Cons.prems by (simp add: stationStep_ext_candidate distinct_update split: option.splits)
  then show ?case using Cons.IH by simp
qed

lemma bucket_empty: "bucket k cs = [] \<longleftrightarrow> k \<notin> fst ` set cs"
  by (auto simp: bucket_def filter_empty_conv)

lemma stationLoop_keys: "fst ` set (stationLoop els []) = fst ` set (candidates els)"
proof -
  have "k \<in> fst ` set (stationLoop els []) \<longleftrightarrow> k \<in> fst ` set (candidates els)" for k
  proof -
    have "k \<in> fst ` set (stationLoop els []) \<longleftrightarrow> map_of (stationLoop els []) k \<noteq> None"
      by (simp add: map_of_eq_None_iff)
    also have "\<dots> \<longleftrightarrow> bucket k (candidates els) \<noteq> []"
      by (simp add: stationLoop_map_of winner_None)
    also have "\<dots> \<longleftrightarrow> k \<in> fst ` set (candidates els)"
      by (simp add: bucket_empty)
    finally show ?thesis .
  qed
  then show ?thesis by blast
qed

lemma stationLoop_ext_keys:
  "fst ` set (stationLoop_ext towns els []) = fst ` set (candidates_ext towns els)"
proof -
  have "k \<in> fst ` set (stationLoop_ext towns els []) \<longleftrightarrow> k \<in> fst ` set (candidates_ext towns els)" for k
  proof -
    have "k \<in> fst ` set (stationLoop_ext towns els []) \<longleftrightarrow>
        map_of (stationLoop_ext towns els []) k \<noteq> None"
      by (simp add: map_of_eq_None_iff)
    also have "\<dots> \<longleftrightarrow> bucket k (candidates_ext towns els) \<noteq> []"
      by (simp add: stationLoop_ext_map_of winner_ext_None)
    also have "\<dots> \<longleftrightarrow> k \<in> fst ` set (candidates_ext towns els)"
      by (simp add: bucket_empty)
    finally show ?thesis .
  qed
  then show ?thesis by blast
qed

lemma length_insertBy: "length (insertBy le x ys) = Suc (length ys)"
  by (induction ys) simp_all

lemma length_sortBy: "length (sortBy le xs) = length xs"
  by (induction xs) (simp_all add: sortBy_def length_insertBy)

lemma set_insertBy: "set (insertBy le x ys) = insert x (set ys)"
  by (induction ys) auto

lemma set_sortBy: "set (sortBy le xs) = set xs"
  by (induction xs) (simp_all add: sortBy_def set_insertBy)

lemma stationLoop_count:
  "length (stationLoop els []) = card (fst ` set (candidates els))"
proof -
  have "distinct (map fst (stationLoop els []))"
    using stationLoop_distinct[of "[]" els] by simp
  then have "card (set (map fst (stationLoop els []))) = length (map fst (stationLoop els []))"
    by (rule distinct_card)
  then show ?thesis using stationLoop_keys[of els] by simp
qed

lemma stationLoop_ext_count:
  "length (stationLoop_ext towns els []) = card (fst ` set (candidates_ext towns els))"
proof -
  have "distinct (map fst (stationLoop_ext towns els []))"
    using stationLoop_ext_distinct[of "[]" towns els] by simp
  then have "card (set (map fst (stationLoop_ext towns els []))) =
      length (map fst (stationLoop_ext towns els []))"
    by (rule distinct_card)
  then show ?thesis using stationLoop_ext_keys[of towns els] by simp
qed

lemma sample_matches:
  "matchesStation (toLowerCase ''Ankara Gar'')"
  "matchesStation (toLowerCase ''Central Station'')"
  "\<not> matchesStation (toLowerCase ''Ankara'')"
  by code_simp+

lemma queryOverpass_answering:
  "fst (queryOverpass (answering els b)) = Some \<lparr>elements = Some els\<rparr>"
  "fst (queryOverpass_ext (answering els b)) = Some \<lparr>elements = Some els\<rparr>"
  by (simp_all add: queryOverpass_def queryOverpass_ext_def OVERPASS_ENDPOINTS_def
      attemptLoop.simps attemptLoop_ext.simps answering_def MAX_RETRIES_def ok_def)

lemma sample_key:
  "mapKey (639 / 16) (525 / 16) = ((False, 399375), (False, 328125))"
  by (simp add: mapKey_def toFixed4_def)

lemma sample_candidate:
  "candidate (node i (639 / 16) (525 / 16) nm) =
     (if nm = [] then None
      else Some (((False, 399375), (False, 328125)),
             stationOf (node i (639 / 16) (525 / 16) nm) (639 / 16) (525 / 16) (trim nm)))"
  by (simp add: candidate_def hasCoords_def resolvedLat_def resolvedLon_def node_def falsyNum_def
      resolvedName_def tag_def js_or_def truthy_def sample_key)

lemma sample_candidate_ext:
  "candidate_ext [] (node i (639 / 16) (525 / 16) nm) =
     (if nm = [] then None
      else Some (((False, 399375), (False, 328125)),
             stationOf_ext (node i (639 / 16) (525 / 16) nm) (639 / 16) (525 / 16) nm))"
  by (simp add: candidate_ext_def hasCoords_def resolvedLat_def resolvedLon_def node_def falsyNum_def
      resolvedName_ext_def tag_def js_or_def truthy_def sample_key)

lemma node_id: "el_id (node i lat lon nm) = i"
  by (simp add: node_def)

lemma node_tags:
  "tag (node i lat lon nm) ''name:en'' = None"
  "tag (node i lat lon nm) ''name'' = Some nm"
  "tag (node i lat lon nm) ''railway'' = Some ''station''"
  by (simp_all add: node_def tag_def)

lemma sample_runs_ext:
  "map sx_id (extractStations_ext byLength (answering []) (answering [ankaraGar, centralStation])
     ''turkey'' turkey) = [2]"
  "map sx_id (extractStations_ext byLength (answering []) (answering [ankara, centralStation])
     ''turkey'' turkey) = [2]"
  "map sx_id (extractStations_ext byLength (answering []) (answering [centralStation, ankara])
     ''turkey'' turkey) = [2]"
  by (simp_all add: extractStations_ext_def queryOverpass_answering townsOf_def
    stationStep_ext_candidate ankaraGar_def centralStation_def ankara_def sample_candidate_ext has_def
    stationOf_ext_def sample_matches sortBy_def node_id)

lemma sample_runs:
  "map st_id (extractStations byLength (answering [ankara, centralStation]) ''turkey'' turkey) = [3]"
  "map st_name (extractStations byLength (answering [blankName]) ''turkey'' turkey) = [[]]"
  by (simp_all add: extractStations_def queryOverpass_answering
    stationStep_candidate ankara_def centralStation_def blankName_def sample_candidate has_def
    stationOf_def sortBy_def trim_def whiteSpace_def node_id)

lemma alist_values:
  assumes "distinct (map fst m)"
  shows "snd ` set m = {v. \<exists>k. map_of m k = Some v}"
proof -
  have "(k, v) \<in> set m \<longleftrightarrow> map_of m k = Some v" for k v
    using assms by simp
  then show ?thesis by force
qed

lemma extractStations_elements:
  assumes "fst (queryOverpass (world (c_bbox country))) = Some data" and "elements data = Some els"
  shows "extractStations lc world key country =
           sortBy (\<lambda>a b. lc (st_name a) (st_name b)) (map snd (stationLoop els []))"
  using assms by (simp add: extractStations_def)

lemma extractStations_ext_elements:
  assumes "fst (queryOverpass_ext (world (c_bbox country))) = Some data" and "elements data = Some els"
  shows "extractStations_ext lc townWorld world key country =
           sortBy (\<lambda>a b. lc (sx_name a) (sx_name b))
             (map snd (stationLoop_ext (townsOf (fst (queryOverpass_ext (townWorld (c_bbox country)))))
                els []))"
  using assms by (simp add: extractStations_ext_def)

text \<open>
  C5. Within one bucket (one key of four-decimal coordinates) the station kept is: in
  part_000 that of the first candidate, whatever the names; in extract.js that of the
  last candidate whose lower-cased name contains one of the words station, vokzal,
  gar, istasyon, and that of the first candidate when no name does. So in extract.js a
  matching candidate wins over a non-matching one and the first wins when none
  matches, while of several matching candidates the last one wins. The stations
  returned are exactly the stations kept.
\<close>

theorem bucket_winner:
  "map_of (stationLoop els []) k = winner (bucket k (candidates els)) \<and>
   map_of (stationLoop_ext towns els []) k = winner_ext (bucket k (candidates_ext towns els)) \<and>
   (fst (queryOverpass (world (c_bbox country))) = Some data \<and> elements data = Some els \<longrightarrow>
      set (extractStations lc world key country) =
        {st. \<exists>k. winner (bucket k (candidates els)) = Some st}) \<and>
   (fst (queryOverpass_ext (world (c_bbox country))) = Some data \<and> elements data = Some els \<longrightarrow>
      set (extractStations_ext lc townWorld world key country) =
        {st. \<exists>k. winner_ext (bucket k (candidates_ext
           (townsOf (fst (queryOverpass_ext (townWorld (c_bbox country))))) els)) = Some st})"
proof (intro conjI impI)
  show "map_of (stationLoop els []) k = winner (bucket k (candidates els))"
    by (rule stationLoop_map_of)
  show "map_of (stationLoop_ext towns els []) k = winner_ext (bucket k (candidates_ext towns els))"
    by (rule stationLoop_ext_map_of)
next
  assume a: "fst (queryOverpass (world (c_bbox country))) = Some data \<and> elements data = Some els"
  have "distinct (map fst (stationLoop els []))"
    using stationLoop_distinct[of "[]" els] by simp
  from alist_values[OF this]
  have "snd ` set (stationLoop els []) = {st. \<exists>k. winner (bucket k (candidates els)) = Some st}"
    by (simp add: stationLoop_map_of)
  then show "set (extractStations lc world key country) =
        {st. \<exists>k. winner (bucket k (candidates els)) = Some st}"
    using a by (simp add: extractStations_elements set_sortBy)
next
  let ?towns = "townsOf (fst (queryOverpass_ext (townWorld (c_bbox country))))"
  assume a: "fst (queryOverpass_ext (world (c_bbox country))) = Some data \<and> elements data = Some els"
  have "distinct (map fst (stationLoop_ext ?towns els []))"
    using stationLoop_ext_distinct[of "[]" ?towns els] by simp
  from alist_values[OF this]
  have "snd ` set (stationLoop_ext ?towns els []) =
      {st. \<exists>k. winner_ext (bucket k (candidates_ext ?towns els)) = Some st}"
    by (simp add: stationLoop_ext_map_of)
  then show "set (extractStations_ext lc townWorld world key country) =
        {st. \<exists>k. winner_ext (bucket k (candidates_ext ?towns els)) = Some st}"
    using a by (simp add: extractStations_ext_elements set_sortBy)
qed

lemma sample_buckets:
  "bucket ((False, 399375), (False, 328125)) (candidates_ext [] [ankaraGar, centralStation]) =
     [stationOf_ext ankaraGar (639 / 16) (525 / 16) ''Ankara Gar'',
      stationOf_ext centralStation (639 / 16) (525 / 16) ''Central Station'']"
  "bucket ((False, 399375), (False, 328125)) (candidates [ankara, centralStation]) =
     [stationOf ankara (639 / 16) (525 / 16) ''Ankara'',
      stationOf centralStation (639 / 16) (525 / 16) ''Central Station'']"
  by (auto simp: bucket_def candidates_ext_def candidates_def List.map_filter_def
      ankaraGar_def centralStation_def ankara_def sample_candidate_ext sample_candidate
      trim_def whiteSpace_def)

theorem bucket_winner_witness:
  "map_of (stationLoop [ankara, centralStation] []) ((False, 399375), (False, 328125)) =
     Some (stationOf ankara (639 / 16) (525 / 16) ''Ankara'') \<and>
   map_of (stationLoop_ext [] [ankaraGar, centralStation] []) ((False, 399375), (False, 328125)) =
     Some (stationOf_ext centralStation (639 / 16) (525 / 16) ''Central Station'') \<and>
   fst (queryOverpass (answering [ankara, centralStation] (c_bbox turkey))) =
     Some \<lparr>elements = Some [ankara, centralStation]\<rparr> \<and>
   set (extractStations byLength (answering [ankara, centralStation]) ''turkey'' turkey) =
     {st. \<exists>k. winner (bucket k (candidates [ankara, centralStation])) = Some st} \<and>
   fst (queryOverpass_ext (answering [ankaraGar, centralStation] (c_bbox turkey))) =
     Some \<lparr>elements = Some [ankaraGar, centralStation]\<rparr> \<and>
   set (extractStations_ext byLength (answering []) (answering [ankaraGar, centralStation]) ''turkey'' turkey) =
     {st. \<exists>k. winner_ext (bucket k (candidates_ext [] [ankaraGar, centralStation])) = Some st}"
proof -
  note inst = bucket_winner[of "[ankara, centralStation]" "((False, 399375), (False, 328125))" "[]"
      "answering [ankara, centralStation]" turkey "\<lparr>elements = Some [ankara, centralStation]\<rparr>"
      byLength "''turkey''" "answering []"]
  note inst_ext = bucket_winner[of "[ankaraGar, centralStation]" "((False, 399375), (False, 328125))" "[]"
      "answering [ankaraGar, centralStation]" turkey "\<lparr>elements = Some [ankaraGar, centralStation]\<rparr>"
      byLength "''turkey''" "answering []"]
  have q: "fst (queryOverpass (answering [ankara, centralStation] (c_bbox turkey))) =
     Some \<lparr>elements = Some [ankara, centralStation]\<rparr>"
    and qx: "fst (queryOverpass_ext (answering [ankaraGar, centralStation] (c_bbox turkey))) =
     Some \<lparr>elements = Some [ankaraGar, centralStation]\<rparr>"
    by (simp_all add: queryOverpass_answering)
  have towns: "townsOf (fst (queryOverpass_ext (answering [] (c_bbox turkey)))) = []"
    by (simp add: queryOverpass_answering townsOf_def)
  have w1: "map_of (stationLoop [ankara, centralStation] []) ((False, 399375), (False, 328125)) =
     Some (stationOf ankara (639 / 16) (525 / 16) ''Ankara'')"
    using inst[THEN conjunct1] by (simp add: sample_buckets winner_def)
  have w2: "map_of (stationLoop_ext [] [ankaraGar, centralStation] []) ((False, 399375), (False, 328125)) =
     Some (stationOf_ext centralStation (639 / 16) (525 / 16) ''Central Station'')"
    using inst_ext[THEN conjunct2, THEN conjunct1]
    by (simp add: sample_buckets winner_ext_def stationOf_ext_def sample_matches)
  have elems: "elements \<lparr>elements = Some [ankara, centralStation]\<rparr> = Some [ankara, centralStation]"
    "elements \<lparr>elements = Some [ankaraGar, centralStation]\<rparr> = Some [ankaraGar, centralStation]"
    by simp_all
  have s1: "set (extractStations byLength (answering [ankara, centralStation]) ''turkey'' turkey) =
     {st. \<exists>k. winner (bucket k (candidates [ankara, centralStation])) = Some st}"
    using inst[THEN conjunct2, THEN conjunct2, THEN conjunct1, THEN mp, OF conjI, OF q elems(1)] .
  have s2: "set (extractStations_ext byLength (answering []) (answering [ankaraGar, centralStation]) ''turkey'' turkey) =
     {st. \<exists>k. winner_ext (bucket k (candidates_ext [] [ankaraGar, centralStation])) = Some st}"
    using inst_ext[THEN conjunct2, THEN conjunct2, THEN conjunct2, THEN mp, OF conjI, OF qx elems(2)]
    by (simp only: towns)
  show ?thesis
    by (intro conjI) (rule w1 w2 q qx s1 s2)+
qed

text \<open>Two matching names in one bucket: extract.js keeps the second. A non-matching
  name followed by a matching one: part_000 keeps the first.\<close>

theorem tie_break_counterexample:
  "matchesStation (toLowerCase ''Ankara Gar'') \<and>
   matchesStation (toLowerCase ''Central Station'') \<and>
   map sx_id (extractStations_ext byLength (answering []) (answering [ankaraGar, centralStation])
     ''turkey'' turkey) = [el_id centralStation] \<and>
   \<not> matchesStation (toLowerCase ''Ankara'') \<and>
   map st_id (extractStations byLength (answering [ankara, centralStation]) ''turkey'' turkey) =
     [el_id ankara]"
proof -
  have "el_id centralStation = 2" "el_id ankara = 3"
    by (simp_all add: centralStation_def ankara_def node_id)
  with sample_matches sample_runs_ext(1) sample_runs(1) show ?thesis by simp
qed

text \<open>
  C7. The keys of the station map are distinct, in both files: there is at most one
  station per key. The collector returns as many stations as there are distinct keys
  among the candidates (the elements that reach the map), so two candidates with the
  same key give exactly one station.
\<close>

theorem one_station_per_key:
  "distinct (map fst (stationLoop els [])) \<and>
   distinct (map fst (stationLoop_ext towns els [])) \<and>
   (fst (queryOverpass (world (c_bbox country))) = Some data \<and> elements data = Some els \<longrightarrow>
      length (extractStations lc world key country) = card (fst ` set (candidates els))) \<and>
   (fst (queryOverpass_ext (world (c_bbox country))) = Some data \<and> elements data = Some els \<longrightarrow>
      length (extractStations_ext lc townWorld world key country) =
        card (fst ` set (candidates_ext
          (townsOf (fst (queryOverpass_ext (townWorld (c_bbox country))))) els))) \<and>
   (candidate a = Some (k, sa) \<and> candidate b = Some (k, sb) \<longrightarrow>
      length (stationLoop [a, b] []) = 1) \<and>
   (candidate_ext towns a = Some (k, xa) \<and> candidate_ext towns b = Some (k, xb) \<longrightarrow>
      length (stationLoop_ext towns [a, b] []) = 1)"
proof (intro conjI impI)
  show "distinct (map fst (stationLoop els []))"
    using stationLoop_distinct[of "[]" els] by simp
  show "distinct (map fst (stationLoop_ext towns els []))"
    using stationLoop_ext_distinct[of "[]" towns els] by simp
next
  assume "fst (queryOverpass (world (c_bbox country))) = Some data \<and> elements data = Some els"
  then show "length (extractStations lc world key country) = card (fst ` set (candidates els))"
    by (simp add: extractStations_elements length_sortBy stationLoop_count)
next
  assume "fst (queryOverpass_ext (world (c_bbox country))) = Some data \<and> elements data = Some els"
  then show "length (extractStations_ext lc townWorld world key country) =
        card (fst ` set (candidates_ext
          (townsOf (fst (queryOverpass_ext (townWorld (c_bbox country))))) els))"
    by (simp add: extractStations_ext_elements length_sortBy stationLoop_ext_count)
next
  assume "candidate a = Some (k, sa) \<and> candidate b = Some (k, sb)"
  then have ca: "candidate a = Some (k, sa)" and cb: "candidate b = Some (k, sb)" by blast+
  have "candidates [a, b] = [(k, sa), (k, sb)]"
    unfolding candidates_def List.map_filter_def by (simp add: ca cb del: not_None_eq)
  then have "fst ` set (candidates [a, b]) = {k}"
    by (simp del: split_paired_Ex split_paired_All)
  then have "length (stationLoop [a, b] []) = card {k}"
    by (simp only: stationLoop_count)
  also have "\<dots> = 1" by simp
  finally show "length (stationLoop [a, b] []) = 1" .
next
  assume "candidate_ext towns a = Some (k, xa) \<and> candidate_ext towns b = Some (k, xb)"
  then have ca: "candidate_ext towns a = Some (k, xa)" and cb: "candidate_ext towns b = Some (k, xb)"
    by blast+
  have "candidates_ext towns [a, b] = [(k, xa), (k, xb)]"
    unfolding candidates_ext_def List.map_filter_def by (simp add: ca cb del: not_None_eq)
  then have "fst ` set (candidates_ext towns [a, b]) = {k}"
    by (simp del: split_paired_Ex split_paired_All)
  then have "length (stationLoop_ext towns [a, b] []) = card {k}"
    by (simp only: stationLoop_ext_count)
  also have "\<dots> = 1" by simp
  finally show "length (stationLoop_ext towns [a, b] []) = 1" .
qed

lemma sample_candidates:
  "candidate ankara = Some (((False, 399375), (False, 328125)),
      stationOf ankara (639 / 16) (525 / 16) ''Ankara'')"
  "candidate centralStation = Some (((False, 399375), (False, 328125)),
      stationOf centralStation (639 / 16) (525 / 16) ''Central Station'')"
  "candidate_ext [] ankara = Some (((False, 399375), (False, 328125)),
      stationOf_ext ankara (639 / 16) (525 / 16) ''Ankara'')"
  "candidate_ext [] centralStation = Some (((False, 399375), (False, 328125)),
      stationOf_ext centralStation (639 / 16) (525 / 16) ''Central Station'')"
  by (simp_all add: ankara_def centralStation_def sample_candidate sample_candidate_ext
      trim_def whiteSpace_def)

theorem one_station_per_key_witness:
  "candidate ankara = Some (((False, 399375), (False, 328125)),
      stationOf ankara (639 / 16) (525 / 16) ''Ankara'') \<and>
   candidate centralStation = Some (((False, 399375), (False, 328125)),
      stationOf centralStation (639 / 16) (525 / 16) ''Central Station'') \<and>
   length (stationLoop [ankara, centralStation] []) = 1 \<and>
   candidate_ext [] ankara = Some (((False, 399375), (False, 328125)),
      stationOf_ext ankara (639 / 16) (525 / 16) ''Ankara'') \<and>
   candidate_ext [] centralStation = Some (((False, 399375), (False, 328125)),
      stationOf_ext centralStation (639 / 16) (525 / 16) ''Central Station'') \<and>
   length (stationLoop_ext [] [ankara, centralStation] []) = 1 \<and>
   fst (queryOverpass (answering [ankara, centralStation] (c_bbox turkey))) =
     Some \<lparr>elements = Some [ankara, centralStation]\<rparr> \<and>
   length (extractStations byLength (answering [ankara, centralStation]) ''turkey'' turkey) =
     card (fst ` set (candidates [ankara, centralStation])) \<and>
   card (fst ` set (candidates [ankara, centralStation])) = 1"
proof -
  note inst = one_station_per_key[of "[ankara, centralStation]" "[]" "answering [ankara, centralStation]"
      turkey "\<lparr>elements = Some [ankara, centralStation]\<rparr>" byLength "''turkey''" "answering []"
      ankara "((False, 399375), (False, 328125))"
      "stationOf ankara (639 / 16) (525 / 16) ''Ankara''" centralStation
      "stationOf centralStation (639 / 16) (525 / 16) ''Central Station''"
      "stationOf_ext ankara (639 / 16) (525 / 16) ''Ankara''"
      "stationOf_ext centralStation (639 / 16) (525 / 16) ''Central Station''"]
  have q: "fst (queryOverpass (answering [ankara, centralStation] (c_bbox turkey))) =
     Some \<lparr>elements = Some [ankara, centralStation]\<rparr>"
    by (simp add: queryOverpass_answering)
  have e: "elements \<lparr>elements = Some [ankara, centralStation]\<rparr> = Some [ankara, centralStation]"
    by simp
  have l1: "length (stationLoop [ankara, centralStation] []) = 1"
    using inst[THEN conjunct2, THEN conjunct2, THEN conjunct2, THEN conjunct2, THEN conjunct1,
        THEN mp, OF conjI, OF sample_candidates(1) sample_candidates(2)] .
  have l2: "length (stationLoop_ext [] [ankara, centralStation] []) = 1"
    using inst[THEN conjunct2, THEN conjunct2, THEN conjunct2, THEN conjunct2, THEN conjunct2,
        THEN mp, OF conjI, OF sample_candidates(3) sample_candidates(4)] .
  have n: "length (extractStations byLength (answering [ankara, centralStation]) ''turkey'' turkey) =
     card (fst ` set (candidates [ankara, centralStation]))"
    using inst[THEN conjunct2, THEN conjunct2, THEN conjunct1, THEN mp, OF conjI, OF q e] .
  have c: "card (fst ` set (candidates [ankara, centralStation])) = 1"
    by (auto simp: candidates_def List.map_filter_def sample_candidates)
  show ?thesis
    by (intro conjI) (rule sample_candidates l1 l2 q n c)+
qed

text \<open>
  C8. In part_000 the name is tested before it is trimmed: an element whose only name
  is a single space passes the test and is returned with an empty name.
\<close>

theorem blank_name_kept:
  "tag blankName ''name'' = Some '' '' \<and>
   map st_name (extractStations byLength (answering [blankName]) ''turkey'' turkey) = ['''']"
  using sample_runs(2) by (simp add: blankName_def node_tags)

text \<open>In extract.js, where the name is not trimmed, no stored name is empty.\<close>

lemma candidate_ext_name:
  "candidate_ext towns el = Some (k, st) \<Longrightarrow> sx_name st \<noteq> []"
  by (auto simp: candidate_ext_def resolvedName_ext_def stationOf_ext_def truthy_def Let_def
      split: if_splits option.splits)

lemma set_alist_update: "set (AList.update k v m) \<subseteq> insert (k, v) (set m)"
  by (induction m) auto

lemma stationStep_ext_names:
  assumes "\<forall>c\<in>set m. sx_name (snd c) \<noteq> []"
  shows "\<forall>c\<in>set (stationStep_ext towns el m). sx_name (snd c) \<noteq> []"
proof (cases "candidate_ext towns el")
  case None
  with assms show ?thesis by (simp add: stationStep_ext_candidate)
next
  case (Some c)
  obtain k st where c: "c = (k, st)" by (cases c)
  with Some have "sx_name st \<noteq> []" by (auto dest: candidate_ext_name)
  with assms have "\<forall>c\<in>insert (k, st) (set m). sx_name (snd c) \<noteq> []" by simp
  then have "\<forall>c\<in>set (AList.update k st m). sx_name (snd c) \<noteq> []"
    using set_alist_update[of k st m] by blast
  with Some c assms show ?thesis by (simp add: stationStep_ext_candidate)
qed

lemma stationLoop_ext_names:
  "\<forall>c\<in>set m. sx_name (snd c) \<noteq> [] \<Longrightarrow>
     \<forall>c\<in>set (stationLoop_ext towns els m). sx_name (snd c) \<noteq> []"
proof (induction els arbitrary: m)
  case Nil
  then show ?case by simp
next
  case (Cons el els)
  have "\<forall>c\<in>set (stationStep_ext towns el m). sx_name (snd c) \<noteq> []"
    using Cons.prems by (rule stationStep_ext_names)
  from Cons.IH[OF this] show ?case by simp
qed

lemma extractStations_ext_names:
  "\<forall>s\<in>set (extractStations_ext lc townWorld world key country). sx_name s \<noteq> []"
  using stationLoop_ext_names[of "[]"]
  by (auto simp: extractStations_ext_def set_sortBy split: option.splits)

lemma stationStep_no_coords:
  "falsyNum (resolvedLat el) \<or> falsyNum (resolvedLon el) \<Longrightarrow> stationStep el m = m"
  by (simp add: stationStep_def)

lemma stationStep_ext_no_coords:
  "falsyNum (resolvedLat el) \<or> falsyNum (resolvedLon el) \<Longrightarrow> stationStep_ext towns el m = m"
  by (simp add: stationStep_ext_def)

lemma stationLoop_filter:
  "stationLoop els m =
     stationLoop (filter (\<lambda>el. \<not> falsyNum (resolvedLat el) \<and> \<not> falsyNum (resolvedLon el)) els) m"
  by (induction els arbitrary: m) (auto simp: stationStep_no_coords)

lemma stationLoop_ext_filter:
  "stationLoop_ext towns els m =
     stationLoop_ext towns
       (filter (\<lambda>el. \<not> falsyNum (resolvedLat el) \<and> \<not> falsyNum (resolvedLon el)) els) m"
  by (induction els arbitrary: m) (auto simp: stationStep_ext_no_coords)

text \<open>
  C10. An element whose resolved latitude or longitude is missing (a way without a
  centre, for one) or is 0 leaves the station map as it is, in both files; the result
  of the loop is that of the elements with both coordinates present and not 0, and a
  query answered with such elements only gives no station, whatever their names.
\<close>

theorem no_station_without_coordinates:
  "(falsyNum (resolvedLat el) \<or> falsyNum (resolvedLon el) \<longrightarrow>
      stationStep el m = m \<and> stationStep_ext towns el mx = mx) \<and>
   (el_type el = ''way'' \<and> el_center el = None \<longrightarrow> falsyNum (resolvedLat el)) \<and>
   (resolvedLat el = Some 0 \<longrightarrow> falsyNum (resolvedLat el)) \<and>
   (resolvedLon el = Some 0 \<longrightarrow> falsyNum (resolvedLon el)) \<and>
   stationLoop els m =
     stationLoop (filter (\<lambda>el. \<not> falsyNum (resolvedLat el) \<and> \<not> falsyNum (resolvedLon el)) els) m \<and>
   stationLoop_ext towns els mx =
     stationLoop_ext towns
       (filter (\<lambda>el. \<not> falsyNum (resolvedLat el) \<and> \<not> falsyNum (resolvedLon el)) els) mx \<and>
   (elements data = Some els \<and>
      (\<forall>el\<in>set els. falsyNum (resolvedLat el) \<or> falsyNum (resolvedLon el)) \<longrightarrow>
      (fst (queryOverpass (world (c_bbox country))) = Some data \<longrightarrow>
         extractStations lc world key country = []) \<and>
      (fst (queryOverpass_ext (world (c_bbox country))) = Some data \<longrightarrow>
         extractStations_ext lc townWorld world key country = []))"
proof (intro conjI impI)
  assume a: "falsyNum (resolvedLat el) \<or> falsyNum (resolvedLon el)"
  show "stationStep el m = m" using a by (rule stationStep_no_coords)
  show "stationStep_ext towns el mx = mx" using a by (rule stationStep_ext_no_coords)
next
  assume "el_type el = ''way'' \<and> el_center el = None"
  then show "falsyNum (resolvedLat el)" by (simp add: resolvedLat_def falsyNum_def)
next
  assume "resolvedLat el = Some 0"
  then show "falsyNum (resolvedLat el)" by (simp add: falsyNum_def)
next
  assume "resolvedLon el = Some 0"
  then show "falsyNum (resolvedLon el)" by (simp add: falsyNum_def)
next
  show "stationLoop els m =
     stationLoop (filter (\<lambda>el. \<not> falsyNum (resolvedLat el) \<and> \<not> falsyNum (resolvedLon el)) els) m"
    by (rule stationLoop_filter)
  show "stationLoop_ext towns els mx =
     stationLoop_ext towns
       (filter (\<lambda>el. \<not> falsyNum (resolvedLat el) \<and> \<not> falsyNum (resolvedLon el)) els) mx"
    by (rule stationLoop_ext_filter)
next
  assume a: "elements data = Some els \<and>
      (\<forall>el\<in>set els. falsyNum (resolvedLat el) \<or> falsyNum (resolvedLon el))"
  then have none: "filter (\<lambda>el. \<not> falsyNum (resolvedLat el) \<and> \<not> falsyNum (resolvedLon el)) els = []"
    by (auto simp: filter_empty_conv)
  {
    assume q: "fst (queryOverpass (world (c_bbox country))) = Some data"
    have "stationLoop els [] = []"
      by (subst stationLoop_filter) (simp add: none)
    with a q show "extractStations lc world key country = []"
      by (simp add: extractStations_elements sortBy_def)
  }
  {
    assume q: "fst (queryOverpass_ext (world (c_bbox country))) = Some data"
    have "stationLoop_ext (townsOf (fst (queryOverpass_ext (townWorld (c_bbox country))))) els [] = []"
      by (subst stationLoop_ext_filter) (simp add: none)
    with a q show "extractStations_ext lc townWorld world key country = []"
      by (simp add: extractStations_ext_elements sortBy_def)
  }
qed

lemma sample_no_coords:
  "resolvedLat equatorNode = Some 0"
  "tag equatorNode ''name'' = Some ''Equator Station''"
  "el_type bareWay = ''way'' \<and> el_center bareWay = None"
  "tag bareWay ''name'' = Some ''Depot Station''"
  by (simp_all add: equatorNode_def bareWay_def node_def resolvedLat_def tag_def)

theorem no_station_without_coordinates_witness:
  "resolvedLat equatorNode = Some 0 \<and>
   tag equatorNode ''name'' = Some ''Equator Station'' \<and>
   el_type bareWay = ''way'' \<and> el_center bareWay = None \<and>
   tag bareWay ''name'' = Some ''Depot Station'' \<and>
   stationStep equatorNode [] = [] \<and> stationStep_ext [] equatorNode [] = [] \<and>
   stationStep bareWay [] = [] \<and> stationStep_ext [] bareWay [] = [] \<and>
   extractStations byLength (answering [equatorNode, bareWay]) ''turkey'' turkey = [] \<and>
   extractStations_ext byLength (answering []) (answering [equatorNode, bareWay]) ''turkey'' turkey = []"
proof -
  let ?d = "\<lparr>elements = Some [equatorNode, bareWay]\<rparr>"
  note inst_eq = no_station_without_coordinates[of equatorNode "[]" "[]" "[]"
      "[equatorNode, bareWay]" ?d "answering [equatorNode, bareWay]" turkey byLength "''turkey''"
      "answering []"]
  note inst_way = no_station_without_coordinates[of bareWay "[]" "[]" "[]"
      "[equatorNode, bareWay]" ?d "answering [equatorNode, bareWay]" turkey byLength "''turkey''"
      "answering []"]
  have f1: "falsyNum (resolvedLat equatorNode)"
    using inst_eq[THEN conjunct2, THEN conjunct2, THEN conjunct1, THEN mp, OF sample_no_coords(1)] .
  have f2: "falsyNum (resolvedLat bareWay)"
    using inst_way[THEN conjunct2, THEN conjunct1, THEN mp, OF sample_no_coords(3)] .
  have s1: "stationStep equatorNode [] = [] \<and> stationStep_ext [] equatorNode [] = []"
    using inst_eq[THEN conjunct1, THEN mp, OF disjI1, OF f1] .
  have s2: "stationStep bareWay [] = [] \<and> stationStep_ext [] bareWay [] = []"
    using inst_way[THEN conjunct1, THEN mp, OF disjI1, OF f2] .
  have all: "elements ?d = Some [equatorNode, bareWay] \<and>
      (\<forall>el\<in>set [equatorNode, bareWay]. falsyNum (resolvedLat el) \<or> falsyNum (resolvedLon el))"
    using f1 f2 by simp
  note out = inst_eq[THEN conjunct2, THEN conjunct2, THEN conjunct2, THEN conjunct2, THEN conjunct2,
      THEN conjunct2, THEN mp, OF all]
  have o1: "extractStations byLength (answering [equatorNode, bareWay]) ''turkey'' turkey = []"
    using out[THEN conjunct1, THEN mp] by (simp add: queryOverpass_answering)
  have o2: "extractStations_ext byLength (answering []) (answering [equatorNode, bareWay]) ''turkey'' turkey = []"
    using out[THEN conjunct2, THEN mp] by (simp add: queryOverpass_answering)
  show ?thesis
    using sample_no_coords s1 s2 o1 o2 by simp
qed

end
